theory Spec2Isabelle
  imports Main "HOL-Library.Char_ord" "HOL-Library.List_Lexorder"
begin

section \<open>Python values, exceptions and built-ins used by the CRS codec\<close>

text \<open>
  The module \<^verbatim>\<open>rasterio/_crs.pyx\<close> converts between PROJ.4 parameter strings and
  dictionaries. Strings are modelled as \<^typ>\<open>string\<close>; a character stands for a code point
  below 256. A dictionary is an association list in insertion order whose keys are
  strings. The type parameter \<open>'f\<close> is the type of Python floats: the built-ins
  \<^verbatim>\<open>float\<close>, \<^verbatim>\<open>str\<close> on floats and \<^verbatim>\<open>json.loads\<close> are not part of the module, so they
  are taken as parameters, collected in a record.
\<close>

datatype 'f pyval =
    PNone
  | PBool bool
  | PInt int
  | PFloat 'f
  | PStr string
  | PList "'f pyval list"
  | PDict "(string \<times> 'f pyval) list"

datatype error =
    CRSError string
  | ValueError string
  | IntLiteralError string
  | IndexError

text \<open>
  \<open>CRSError msg\<close> and \<open>ValueError msg\<close> are the exceptions the module raises itself.
  \<open>IntLiteralError s\<close> is the \<^verbatim>\<open>ValueError\<close> that the built-in \<^verbatim>\<open>int(s)\<close> raises on a text
  that is no integer literal, and \<open>IndexError\<close> is what indexing past the end of a list
  raises.
\<close>

record 'f pylib =
  json_loads :: "string \<Rightarrow> 'f pyval option"
  float_parse :: "string \<Rightarrow> 'f option"
  float_str :: "'f \<Rightarrow> string"
  float_bool :: "'f \<Rightarrow> bool"

text \<open>
  \<open>json_loads L s\<close> is \<^verbatim>\<open>json.loads(s, strict=False)\<close> and \<open>float_parse L s\<close> is \<^verbatim>\<open>float(s)\<close>,
  with \<open>None\<close> where Python raises \<^verbatim>\<open>ValueError\<close>; \<open>float_str L x\<close> is \<^verbatim>\<open>str(x)\<close> and
  \<open>float_bool L x\<close> is \<^verbatim>\<open>bool(x)\<close>, that is \<^verbatim>\<open>x != 0\<close>, for a float \<open>x\<close>.
\<close>

subsection \<open>Truth values, identity tests and type tests\<close>

fun truthy :: "'f pylib \<Rightarrow> 'f pyval \<Rightarrow> bool" where
  "truthy L PNone = False"
| "truthy L (PBool b) = b"
| "truthy L (PInt i) = (i \<noteq> 0)"
| "truthy L (PFloat x) = float_bool L x"
| "truthy L (PStr s) = (s \<noteq> [])"
| "truthy L (PList xs) = (xs \<noteq> [])"
| "truthy L (PDict d) = (d \<noteq> [])"

text \<open>The comparison \<^verbatim>\<open>y == 0\<close>: \<^verbatim>\<open>False == 0\<close> holds, and a float equals 0 when it is falsy.\<close>

fun eq_zero :: "'f pylib \<Rightarrow> 'f pyval \<Rightarrow> bool" where
  "eq_zero L (PBool b) = (\<not> b)"
| "eq_zero L (PInt i) = (i = 0)"
| "eq_zero L (PFloat x) = (\<not> float_bool L x)"
| "eq_zero L PNone = False"
| "eq_zero L (PStr s) = False"
| "eq_zero L (PList xs) = False"
| "eq_zero L (PDict d) = False"

text \<open>\<^verbatim>\<open>isinstance(v, (bool, int, float)) or isinstance(v, string_types)\<close>\<close>

fun is_scalar :: "'f pyval \<Rightarrow> bool" where
  "is_scalar (PBool b) = True"
| "is_scalar (PInt i) = True"
| "is_scalar (PFloat x) = True"
| "is_scalar (PStr s) = True"
| "is_scalar PNone = False"
| "is_scalar (PList xs) = False"
| "is_scalar (PDict d) = False"

subsection \<open>String methods\<close>

text \<open>\<^verbatim>\<open>str.isspace\<close> on one character (code points below 256).\<close>

definition is_space :: "char \<Rightarrow> bool" where
  "is_space c = (c \<in> set [CHR 0x09, CHR 0x0A, CHR 0x0B, CHR 0x0C, CHR 0x0D, CHR 0x1C,
     CHR 0x1D, CHR 0x1E, CHR 0x1F, CHR 0x20, CHR 0x85, CHR 0xA0])"

definition strip :: "string \<Rightarrow> string" where
  "strip s = rev (dropWhile is_space (rev (dropWhile is_space s)))"

text \<open>\<^verbatim>\<open>s.lstrip(chars)\<close>\<close>

definition lstrip :: "string \<Rightarrow> string \<Rightarrow> string" where
  "lstrip chars s = dropWhile (\<lambda>c. c \<in> set chars) s"

text \<open>\<^verbatim>\<open>s.split()\<close>: the maximal runs of characters that are not whitespace.\<close>

fun split_ws_aux :: "string \<Rightarrow> string \<Rightarrow> string list" where
  "split_ws_aux cur [] = (if cur = [] then [] else [cur])"
| "split_ws_aux cur (c # cs) =
     (if is_space c then (if cur = [] then split_ws_aux [] cs else cur # split_ws_aux [] cs)
      else split_ws_aux (cur @ [c]) cs)"

definition split_ws :: "string \<Rightarrow> string list" where
  "split_ws s = split_ws_aux [] s"

text \<open>\<^verbatim>\<open>s.split(sep)\<close> for a separator of one character: every occurrence splits.\<close>

fun split_on_aux :: "char \<Rightarrow> string \<Rightarrow> string \<Rightarrow> string list" where
  "split_on_aux sep cur [] = [cur]"
| "split_on_aux sep cur (c # cs) =
     (if c = sep then cur # split_on_aux sep [] cs else split_on_aux sep (cur @ [c]) cs)"

definition split_on :: "char \<Rightarrow> string \<Rightarrow> string list" where
  "split_on sep s = split_on_aux sep [] s"

text \<open>\<^verbatim>\<open>sep.join(xs)\<close>\<close>

fun str_join :: "string \<Rightarrow> string list \<Rightarrow> string" where
  "str_join sep [] = []"
| "str_join sep [x] = x"
| "str_join sep (x # y # ys) = x @ sep @ str_join sep (y # ys)"

text \<open>
  \<^verbatim>\<open>s.upper()\<close> on the letters a to z. The module only asks whether the result starts
  with \<^verbatim>\<open>EPSG:\<close>, and no other character below 256 is mapped to one of these letters.
\<close>

definition upper_char :: "char \<Rightarrow> char" where
  "upper_char c =
     (case map_of (zip ''abcdefghijklmnopqrstuvwxyz'' ''ABCDEFGHIJKLMNOPQRSTUVWXYZ'') c of
        None \<Rightarrow> c
      | Some u \<Rightarrow> u)"

definition upper :: "string \<Rightarrow> string" where
  "upper s = map upper_char s"

definition startswith :: "string \<Rightarrow> string \<Rightarrow> bool" where
  "startswith s p = (take (length p) s = p)"

subsection \<open>Integers: \<^verbatim>\<open>int(s)\<close> and \<^verbatim>\<open>str(n)\<close>\<close>

definition digit_of :: "char \<Rightarrow> nat option" where
  "digit_of c =
     (let n = (of_char c :: nat) in if 48 \<le> n \<and> n \<le> 57 then Some (n - 48) else None)"

text \<open>The texts made of decimal digits only.\<close>

definition all_digits :: "string \<Rightarrow> bool" where
  "all_digits s = (\<forall>c\<in>set s. digit_of c \<noteq> None)"

text \<open>
  The digits after the first one; a single underscore may stand between two digits
  (Python 3.6 and later).
\<close>

fun parse_digits :: "nat \<Rightarrow> string \<Rightarrow> nat option" where
  "parse_digits acc [] = Some acc"
| "parse_digits acc [c] =
     (case digit_of c of None \<Rightarrow> None | Some v \<Rightarrow> Some (acc * 10 + v))"
| "parse_digits acc (c # d # ds) =
     (if c = CHR ''_'' then
        (case digit_of d of None \<Rightarrow> None | Some v \<Rightarrow> parse_digits (acc * 10 + v) ds)
      else
        (case digit_of c of None \<Rightarrow> None | Some v \<Rightarrow> parse_digits (acc * 10 + v) (d # ds)))"

definition parse_nat :: "string \<Rightarrow> nat option" where
  "parse_nat s =
     (case s of [] \<Rightarrow> None
      | c # cs \<Rightarrow> (case digit_of c of None \<Rightarrow> None | Some v \<Rightarrow> parse_digits v cs))"

text \<open>
  The characters that \<^verbatim>\<open>int\<close> ignores around a literal. Among the characters below 128
  these are the blank and the five controls from tab to carriage return only, not the
  four separators 0x1C to 0x1F, which \<^verbatim>\<open>str.split\<close> and \<^verbatim>\<open>str.strip\<close> do treat as
  whitespace.
\<close>

definition is_int_space :: "char \<Rightarrow> bool" where
  "is_int_space c =
     (c \<in> set [CHR 0x09, CHR 0x0A, CHR 0x0B, CHR 0x0C, CHR 0x0D, CHR 0x20, CHR 0x85, CHR 0xA0])"

definition int_strip :: "string \<Rightarrow> string" where
  "int_strip s = rev (dropWhile is_int_space (rev (dropWhile is_int_space s)))"

text \<open>
  \<^verbatim>\<open>int(s)\<close> for a text \<open>s\<close>: surrounding whitespace is ignored, one sign is allowed, the
  rest must be a decimal numeral. \<open>None\<close> stands for \<^verbatim>\<open>ValueError\<close>. Integers are
  unbounded, as in Python; the configurable bound that recent interpreters put on the
  number of digits of a conversion (4300 by default) is not modelled.
\<close>

definition py_int :: "string \<Rightarrow> int option" where
  "py_int s =
     (case int_strip s of [] \<Rightarrow> None
      | c # cs \<Rightarrow>
          if c = CHR ''-'' then map_option (\<lambda>n. - int n) (parse_nat cs)
          else if c = CHR ''+'' then map_option int (parse_nat cs)
          else map_option int (parse_nat (c # cs)))"

definition digit_char :: "nat \<Rightarrow> char" where
  "digit_char d = ''0123456789'' ! d"

fun str_nat :: "nat \<Rightarrow> string" where
  "str_nat n = (if n < 10 then [digit_char n] else str_nat (n div 10) @ [digit_char (n mod 10)])"

definition str_int :: "int \<Rightarrow> string" where
  "str_int i = (if i < 0 then CHR ''-'' # str_nat (nat (- i)) else str_nat (nat i))"

text \<open>
  \<^verbatim>\<open>str(y)\<close>. The module applies it to keys and to the values that passed its filters,
  which are texts, integers and floats; the text form of a list or a dictionary is not
  modelled.
\<close>

fun py_str :: "'f pylib \<Rightarrow> 'f pyval \<Rightarrow> string" where
  "py_str L (PStr s) = s"
| "py_str L (PInt i) = str_int i"
| "py_str L (PFloat x) = float_str L x"
| "py_str L (PBool b) = (if b then ''True'' else ''False'')"
| "py_str L PNone = ''None''"

section \<open>The parameter vocabulary \<^verbatim>\<open>all_proj_keys\<close>\<close>

text \<open>
  \<open>param_rows\<close> lists the lines of the table between the triple quotes of
  \<^verbatim>\<open>_param_data\<close>; the text itself starts with a line break and ends with one.
\<close>

definition param_rows :: "string list" where
  "param_rows = [
    ''+a         Semimajor radius of the ellipsoid axis'',
    ''+alpha     ? Used with Oblique Mercator and possibly a few others'',
    ''+axis      Axis orientation (new in 4.8.0)'',
    ''+b         Semiminor radius of the ellipsoid axis'',
    ''+datum     Datum name (see `proj -ld`)'',
    ''+ellps     Ellipsoid name (see `proj -le`)'',
    ''+init      Initialize from a named CRS'',
    ''+k         Scaling factor (old name)'',
    ''+k_0       Scaling factor (new name)'',
    ''+lat_0     Latitude of origin'',
    ''+lat_1     Latitude of first standard parallel'',
    ''+lat_2     Latitude of second standard parallel'',
    ''+lat_ts    Latitude of true scale'',
    ''+lon_0     Central meridian'',
    ''+lonc      ? Longitude used with Oblique Mercator and possibly a few others'',
    ''+lon_wrap  Center longitude to use for wrapping (see below)'',
    ''+nadgrids  Filename of NTv2 grid file to use for datum transforms (see below)'',
    ''+no_defs   Don't use the /usr/share/proj/proj_def.dat defaults file'',
    ''+over      Allow longitude output outside -180 to 180 range, disables wrapping (see below)'',
    ''+pm        Alternate prime meridian (typically a city name, see below)'',
    ''+proj      Projection name (see `proj -l`)'',
    ''+south     Denotes southern hemisphere UTM zone'',
    ''+to_meter  Multiplier to convert map units to 1.0m'',
    ''+towgs84   3 or 7 term datum transform parameters (see below)'',
    ''+units     meters, US survey feet, etc.'',
    ''+vto_meter vertical conversion to meters.'',
    ''+vunits    vertical units.'',
    ''+x_0       False easting'',
    ''+y_0       False northing'',
    ''+zone      UTM zone'',
    ''+a         Semimajor radius of the ellipsoid axis'',
    ''+alpha     ? Used with Oblique Mercator and possibly a few others'',
    ''+azi'',
    ''+b         Semiminor radius of the ellipsoid axis'',
    ''+belgium'',
    ''+beta'',
    ''+czech'',
    ''+e         Eccentricity of the ellipsoid = sqrt(1 - b^2/a^2) = sqrt( f*(2-f) )'',
    ''+ellps     Ellipsoid name (see `proj -le`)'',
    ''+es        Eccentricity of the ellipsoid squared'',
    ''+f         Flattening of the ellipsoid (often presented as an inverse, e.g. 1/298)'',
    ''+gamma'',
    ''+geoc'',
    ''+guam'',
    ''+h'',
    ''+k         Scaling factor (old name)'',
    ''+K'',
    ''+k_0       Scaling factor (new name)'',
    ''+lat_0     Latitude of origin'',
    ''+lat_1     Latitude of first standard parallel'',
    ''+lat_2     Latitude of second standard parallel'',
    ''+lat_b'',
    ''+lat_t'',
    ''+lat_ts    Latitude of true scale'',
    ''+lon_0     Central meridian'',
    ''+lon_1'',
    ''+lon_2'',
    ''+lonc      ? Longitude used with Oblique Mercator and possibly a few others'',
    ''+lsat'',
    ''+m'',
    ''+M'',
    ''+n'',
    ''+no_cut'',
    ''+no_off'',
    ''+no_rot'',
    ''+ns'',
    ''+o_alpha'',
    ''+o_lat_1'',
    ''+o_lat_2'',
    ''+o_lat_c'',
    ''+o_lat_p'',
    ''+o_lon_1'',
    ''+o_lon_2'',
    ''+o_lon_c'',
    ''+o_lon_p'',
    ''+o_proj'',
    ''+over'',
    ''+p'',
    ''+path'',
    ''+proj      Projection name (see `proj -l`)'',
    ''+q'',
    ''+R'',
    ''+R_a'',
    ''+R_A       Compute radius such that the area of the sphere is the same as the area of the ellipsoid'',
    ''+rf        Reciprocal of the ellipsoid flattening term (e.g. 298)'',
    ''+R_g'',
    ''+R_h'',
    ''+R_lat_a'',
    ''+R_lat_g'',
    ''+rot'',
    ''+R_V'',
    ''+s'',
    ''+south     Denotes southern hemisphere UTM zone'',
    ''+sym'',
    ''+t'',
    ''+theta'',
    ''+tilt'',
    ''+to_meter  Multiplier to convert map units to 1.0m'',
    ''+units     meters, US survey feet, etc.'',
    ''+vopt'',
    ''+W'',
    ''+westo'',
    ''+x_0       False easting'',
    ''+y_0       False northing'',
    ''+zone      UTM zone'']"

definition param_data :: "string" where
  "param_data = CHR 0x0A # concat (map (\<lambda>r. r @ [CHR 0x0A]) param_rows)"

text \<open>\<^verbatim>\<open>_lines = filter(lambda x: len(x) > 1, _param_data.split("\n"))\<close>\<close>

definition param_lines :: "string list" where
  "param_lines = filter (\<lambda>x. length x > 1) (split_on (CHR 0x0A) param_data)"

text \<open>
  \<^verbatim>\<open>line.split()[0].lstrip("+").strip()\<close>. Indexing an empty list raises in Python; the
  table has no line of two or more characters that is all whitespace (lemma
  \<open>param_lines_have_token\<close> below).
\<close>

definition key_of_line :: "string \<Rightarrow> string" where
  "key_of_line line = strip (lstrip ''+'' (split_ws line ! 0))"

text \<open>
  \<^verbatim>\<open>list(set(...)) + ['no_mayo']\<close>. The order in which a Python set is listed is not
  fixed; the module only tests membership in this list.
\<close>

definition all_proj_keys :: "string list" where
  "all_proj_keys = remdups (map key_of_line param_lines) @ [''no_mayo'']"

section \<open>\<^verbatim>\<open>CRS.to_string\<close>\<close>

text \<open>The filter on the items of the mapping.\<close>

definition item_kept :: "string \<times> 'f pyval \<Rightarrow> bool" where
  "item_kept x = (fst x \<in> set all_proj_keys \<and> snd x \<noteq> PBool False \<and> is_scalar (snd x))"

text \<open>The inner filter \<^verbatim>\<open>lambda y: (y or y == 0) and y is not True\<close> on the pair \<^verbatim>\<open>(k, v)\<close>.\<close>

definition part_kept :: "'f pylib \<Rightarrow> 'f pyval \<Rightarrow> bool" where
  "part_kept L y = ((truthy L y \<or> eq_zero L y) \<and> y \<noteq> PBool True)"

definition render_item :: "'f pylib \<Rightarrow> string \<times> 'f pyval \<Rightarrow> string" where
  "render_item L x =
     ''+'' @ str_join ''='' (map (py_str L) (filter (part_kept L) [PStr (fst x), snd x]))"

text \<open>
  \<open>items\<close> are the items of the dictionary, so the keys are distinct and \<^verbatim>\<open>sorted\<close>,
  which compares the pairs, never has to compare two values: it sorts by key.
\<close>

definition to_string :: "'f pylib \<Rightarrow> (string \<times> 'f pyval) list \<Rightarrow> string" where
  "to_string L items =
     str_join '' '' (map (render_item L) (sort_key fst (filter item_kept items)))"

section \<open>\<^verbatim>\<open>CRS.from_epsg\<close>\<close>

datatype code = CodeInt int | CodeStr string

fun int_of_code :: "code \<Rightarrow> int option" where
  "int_of_code (CodeInt n) = Some n"
| "int_of_code (CodeStr s) = py_int s"

fun str_of_code :: "code \<Rightarrow> string" where
  "str_of_code (CodeInt n) = str_int n"
| "str_of_code (CodeStr s) = s"

definition from_epsg :: "code \<Rightarrow> error + 'f pyval" where
  "from_epsg c =
     (case int_of_code c of
        None \<Rightarrow> Inl (IntLiteralError (str_of_code c))
      | Some n \<Rightarrow>
          if n \<le> 0 then Inl (ValueError ''EPSG codes are positive integers'')
          else Inr (PDict [(''init'', PStr (''epsg:'' @ str_of_code c)),
                           (''no_defs'', PBool True)]))"

section \<open>\<^verbatim>\<open>CRS.from_string\<close>\<close>

text \<open>The local function \<^verbatim>\<open>parse\<close>.\<close>

definition parse :: "'f pylib \<Rightarrow> string \<Rightarrow> 'f pyval" where
  "parse L v =
     (if v \<in> set [''True'', ''true''] then PBool True
      else if v \<in> set [''False'', ''false''] then PBool False
      else (case py_int v of
              Some i \<Rightarrow> PInt i
            | None \<Rightarrow> (case float_parse L v of Some x \<Rightarrow> PFloat x | None \<Rightarrow> PStr v)))"

text \<open>
  \<^verbatim>\<open>len(kv) == 2 and (kv[0], parse(kv[1])) or (kv[0], True)\<close>, for \<open>kv\<close> the result of
  \<^verbatim>\<open>p.split('=')\<close>, which is never empty (lemma \<open>split_on_not_Nil\<close> below).
\<close>

fun item_of :: "'f pylib \<Rightarrow> string list \<Rightarrow> string \<times> 'f pyval" where
  "item_of L [k, v] = (k, parse L v)"
| "item_of L (k # rest) = (k, PBool True)"

text \<open>Assignment \<^verbatim>\<open>d[k] = v\<close> on a dictionary that keeps insertion order.\<close>

fun dict_set :: "(string \<times> 'v) list \<Rightarrow> string \<Rightarrow> 'v \<Rightarrow> (string \<times> 'v) list" where
  "dict_set [] k v = [(k, v)]"
| "dict_set ((k', v') # d) k v =
     (if k' = k then (k, v) # d else (k', v') # dict_set d k v)"

text \<open>\<^verbatim>\<open>CRS(pairs)\<close>: the pairs are assigned one after the other to an empty dictionary.\<close>

definition crs_of :: "(string \<times> 'v) list \<Rightarrow> (string \<times> 'v) list" where
  "crs_of kvs = foldl (\<lambda>d kv. dict_set d (fst kv) (snd kv)) [] kvs"

text \<open>The items read from a PROJ.4 string, before the vocabulary filter.\<close>

definition proj_items :: "'f pylib \<Rightarrow> string \<Rightarrow> (string \<times> 'f pyval) list" where
  "proj_items L prjs =
     map (item_of L) (map (split_on CHR ''='') (map (lstrip ''+'') (split_ws (strip prjs))))"

definition from_string :: "'f pylib \<Rightarrow> string \<Rightarrow> error + 'f pyval" where
  "from_string L prjs =
     (if CHR ''{'' \<in> set prjs then
        (case json_loads L prjs of
           None \<Rightarrow> Inl (CRSError ''crs appears to be JSON but is not valid'')
         | Some val \<Rightarrow>
             if \<not> truthy L val then Inl (CRSError ''crs is empty JSON'') else Inr val)
      else if startswith (upper (strip prjs)) ''EPSG:'' then
        (case split_on CHR '':'' prjs of
           a # b # rest \<Rightarrow> from_epsg (CodeStr b)
         | _ \<Rightarrow> Inl IndexError)
      else
        (let out = crs_of (filter (\<lambda>kv. fst kv \<in> set all_proj_keys) (proj_items L prjs))
         in if out = [] then Inl (CRSError (''crs is empty or invalid: '' @ prjs))
            else Inr (PDict out)))"

text \<open>
  A library for running the functions on concrete inputs: a float is represented by
  the text \<^verbatim>\<open>str\<close> gives for it, and \<^verbatim>\<open>json.loads\<close> and \<^verbatim>\<open>float\<close> are given by finite tables
  of their answers.
\<close>

definition table_lib :: "(string \<times> string pyval) list \<Rightarrow> (string \<times> string) list \<Rightarrow> string pylib" where
  "table_lib jsons floats =
     \<lparr>json_loads = map_of jsons, float_parse = map_of floats,
      float_str = (\<lambda>r. r), float_bool = (\<lambda>r. r \<noteq> ''0.0'' \<and> r \<noteq> ''-0.0'')\<rparr>"

section \<open>The specification's wording of the same operations\<close>

text \<open>
  The definitions of this section follow the words of the specification, not the
  code; the theorems below compare them with the functions above.
\<close>

text \<open>The first whitespace-delimited token of a line.\<close>

definition first_token :: "string \<Rightarrow> string" where
  "first_token l = takeWhile (\<lambda>c. \<not> is_space c) (dropWhile is_space l)"

text \<open>
  The vocabulary as the specification builds it: the name of every non-blank line
  of the table, and the extra key.
\<close>

definition vocabulary_spec :: "string set" where
  "vocabulary_spec =
     insert ''no_mayo''
       ((\<lambda>l. strip (lstrip ''+'' (first_token l))) `
          {l \<in> set (split_on (CHR 0x0A) param_data). \<not> list_all is_space l})"

text \<open>
  Rendering as the specification words it: a bare key for the value true, and
  \<^verbatim>\<open>+key=value\<close> for every other value.
\<close>

definition render_spec :: "'f pylib \<Rightarrow> string \<times> 'f pyval \<Rightarrow> string" where
  "render_spec L x =
     (if snd x = PBool True then ''+'' @ fst x else ''+'' @ fst x @ ''='' @ py_str L (snd x))"

definition encode_spec :: "'f pylib \<Rightarrow> (string \<times> 'f pyval) list \<Rightarrow> string" where
  "encode_spec L items =
     str_join '' '' (map (render_spec L) (sort_key fst (filter item_kept items)))"

text \<open>Rendering with the empty text treated like the value true.\<close>

definition render_bare_empty :: "'f pylib \<Rightarrow> string \<times> 'f pyval \<Rightarrow> string" where
  "render_bare_empty L x =
     (if snd x = PBool True \<or> snd x = PStr [] then ''+'' @ fst x
      else ''+'' @ fst x @ ''='' @ py_str L (snd x))"

text \<open>
  A token read as the specification words it: split at the first \<^verbatim>\<open>=\<close>, the value is
  everything after it.
\<close>

definition item_first_eq :: "'f pylib \<Rightarrow> string \<Rightarrow> string \<times> 'f pyval" where
  "item_first_eq L p =
     (if CHR ''='' \<in> set p
      then (takeWhile (\<lambda>c. c \<noteq> CHR ''='') p, parse L (tl (dropWhile (\<lambda>c. c \<noteq> CHR ''='') p)))
      else (p, PBool True))"

text \<open>
  A token read by the number of its \<^verbatim>\<open>=\<close> signs: a value only when there is exactly
  one.
\<close>

definition item_one_eq :: "'f pylib \<Rightarrow> string \<Rightarrow> string \<times> 'f pyval" where
  "item_one_eq L p =
     (if count_list p CHR ''='' = 1
      then (takeWhile (\<lambda>c. c \<noteq> CHR ''='') p, parse L (tl (dropWhile (\<lambda>c. c \<noteq> CHR ''='') p)))
      else (takeWhile (\<lambda>c. c \<noteq> CHR ''='') p, PBool True))"

text \<open>
  The EPSG code as the specification words it: the trimmed input is split once at
  \<^verbatim>\<open>:\<close> and the code is the remainder.
\<close>

definition epsg_remainder :: "string \<Rightarrow> string" where
  "epsg_remainder s = tl (dropWhile (\<lambda>c. c \<noteq> CHR '':'') (strip s))"

text \<open>The text between the first \<^verbatim>\<open>:\<close> of the input and the next one, or the end.\<close>

definition epsg_segment :: "string \<Rightarrow> string" where
  "epsg_segment s = takeWhile (\<lambda>c. c \<noteq> CHR '':'') (tl (dropWhile (\<lambda>c. c \<noteq> CHR '':'') s))"

text \<open>
  Texts that survive as one token and one value: no whitespace, no \<^verbatim>\<open>=\<close>, and no
  \<^verbatim>\<open>{\<close>, which would send the whole string to the JSON branch.
\<close>

definition token_safe :: "string \<Rightarrow> bool" where
  "token_safe s =
     (s \<noteq> [] \<and> (\<forall>c\<in>set s. \<not> is_space c \<and> c \<noteq> CHR ''='' \<and> c \<noteq> CHR ''{''))"

text \<open>
  The values that \<^verbatim>\<open>to_string\<close> writes as a token from which \<^verbatim>\<open>from_string\<close> reads the
  same value back.
\<close>

fun roundtrip_value :: "'f pylib \<Rightarrow> 'f pyval \<Rightarrow> bool" where
  "roundtrip_value L (PBool b) = b"
| "roundtrip_value L (PInt i) = True"
| "roundtrip_value L (PFloat x) =
     (token_safe (float_str L x) \<and> parse L (float_str L x) = PFloat x)"
| "roundtrip_value L (PStr s) = (token_safe s \<and> parse L s = PStr s)"
| "roundtrip_value L PNone = False"
| "roundtrip_value L (PList xs) = False"
| "roundtrip_value L (PDict d) = False"

section \<open>Facts about the string methods\<close>

lemma split_on_aux_no_sep:
  "sep \<notin> set r \<Longrightarrow>
   split_on_aux sep cur (r @ sep # rest) = (cur @ r) # split_on_aux sep [] rest"
  by (induction r arbitrary: cur) auto

lemma split_on_aux_end: "sep \<notin> set r \<Longrightarrow> split_on_aux sep cur r = [cur @ r]"
  by (induction r arbitrary: cur) auto

lemma split_on_aux_rows:
  "\<forall>r\<in>set rows. sep \<notin> set r \<Longrightarrow>
   split_on_aux sep [] (concat (map (\<lambda>r. r @ [sep]) rows)) = rows @ [[]]"
proof (induction rows)
  case Nil
  then show ?case by simp
next
  case (Cons r rows)
  then show ?case using split_on_aux_no_sep [of sep r "[]"] by simp
qed

lemma split_on_aux_not_Nil: "split_on_aux sep cur s \<noteq> []"
  by (induction s arbitrary: cur) auto

lemma split_on_not_Nil: "split_on sep s \<noteq> []"
  by (simp add: split_on_def split_on_aux_not_Nil)

lemma split_ws_aux_token:
  "\<forall>c\<in>set t. \<not> is_space c \<Longrightarrow> cur @ t \<noteq> [] \<Longrightarrow> is_space d \<Longrightarrow>
   split_ws_aux cur (t @ d # rest) = (cur @ t) # split_ws_aux [] rest"
  by (induction t arbitrary: cur) auto

lemma split_ws_aux_last:
  "\<forall>c\<in>set t. \<not> is_space c \<Longrightarrow> cur @ t \<noteq> [] \<Longrightarrow> split_ws_aux cur t = [cur @ t]"
  by (induction t arbitrary: cur) auto

lemma split_ws_aux_leading: "\<forall>c\<in>set sp. is_space c \<Longrightarrow> split_ws_aux [] (sp @ s) = split_ws_aux [] s"
  by (induction sp) auto

lemma split_ws_Cons_first:
  assumes "first_token s \<noteq> []"
  shows "\<exists>rest. split_ws s = first_token s # rest"
proof -
  define sp where "sp = takeWhile is_space s"
  define u where "u = dropWhile is_space s"
  define t where "t = takeWhile (\<lambda>c. \<not> is_space c) u"
  define r where "r = dropWhile (\<lambda>c. \<not> is_space c) u"
  have sp: "\<forall>c\<in>set sp. is_space c"
    unfolding sp_def by (auto dest: set_takeWhileD)
  have t: "\<forall>c\<in>set t. \<not> is_space c"
    unfolding t_def by (auto dest: set_takeWhileD)
  have ne: "[] @ t \<noteq> []"
    using assms by (simp add: t_def u_def first_token_def)
  have s: "s = sp @ u" and u: "u = t @ r"
    by (simp_all add: sp_def u_def t_def r_def)
  have ws: "split_ws s = split_ws_aux [] (t @ r)"
    using split_ws_aux_leading [OF sp, of u] s u by (simp add: split_ws_def)
  have "\<exists>rest. split_ws s = t # rest"
  proof (cases r)
    case Nil
    then show ?thesis
      using split_ws_aux_last [OF t ne] ws by simp
  next
    case (Cons d rest)
    then have "is_space d"
      using hd_dropWhile [of "\<lambda>c. \<not> is_space c" u] by (simp add: r_def)
    then show ?thesis
      using split_ws_aux_token [OF t ne, of d rest] ws Cons by simp
  qed
  then show ?thesis by (simp add: t_def u_def first_token_def)
qed

lemma split_ws_first: "first_token s \<noteq> [] \<Longrightarrow> split_ws s ! 0 = first_token s"
  using split_ws_Cons_first [of s] by auto

lemma first_token_not_Nil: "\<not> list_all is_space l \<Longrightarrow> first_token l \<noteq> []"
proof -
  assume "\<not> list_all is_space l"
  then have "dropWhile is_space l \<noteq> []"
    by (simp add: list_all_iff)
  then have "\<not> is_space (hd (dropWhile is_space l))"
    by (rule hd_dropWhile)
  then show ?thesis
    using \<open>dropWhile is_space l \<noteq> []\<close>
    by (cases "dropWhile is_space l") (simp_all add: first_token_def)
qed

lemma key_of_line_first_token:
  "\<not> list_all is_space l \<Longrightarrow> key_of_line l = strip (lstrip ''+'' (first_token l))"
  by (simp add: key_of_line_def split_ws_first first_token_not_Nil)

section \<open>The vocabulary, computed\<close>

lemma param_rows_no_newline: "\<forall>r\<in>set param_rows. CHR 0x0A \<notin> set r"
  by (simp add: param_rows_def)

lemma param_rows_long: "\<forall>r\<in>set param_rows. length r > 1"
  by (simp add: param_rows_def)

lemma param_rows_not_blank: "\<forall>r\<in>set param_rows. \<not> list_all is_space r"
  by (simp add: param_rows_def is_space_def)

lemma split_param_data: "split_on (CHR 0x0A) param_data = [] # param_rows @ [[]]"
  unfolding split_on_def param_data_def
  using split_on_aux_rows [OF param_rows_no_newline] by simp

lemma param_lines_eq: "param_lines = param_rows"
proof -
  have "param_lines = filter (\<lambda>x. length x > 1) param_rows"
    by (simp add: param_lines_def split_param_data)
  also have "\<dots> = param_rows"
    using param_rows_long by (simp only: filter_id_conv)
  finally show ?thesis .
qed

lemma param_lines_have_token: "\<forall>l\<in>set param_lines. split_ws l \<noteq> []"
proof
  fix l
  assume "l \<in> set param_lines"
  then have "first_token l \<noteq> []"
    using param_rows_not_blank by (simp add: param_lines_eq first_token_not_Nil)
  then show "split_ws l \<noteq> []"
    using split_ws_Cons_first [of l] by auto
qed

lemma row_keys: "map (\<lambda>l. strip (lstrip ''+'' (first_token l))) param_rows = [
    ''a'', ''alpha'', ''axis'', ''b'', ''datum'', ''ellps'', ''init'', ''k'', ''k_0'',
    ''lat_0'', ''lat_1'', ''lat_2'', ''lat_ts'', ''lon_0'', ''lonc'', ''lon_wrap'',
    ''nadgrids'', ''no_defs'', ''over'', ''pm'', ''proj'', ''south'', ''to_meter'',
    ''towgs84'', ''units'', ''vto_meter'', ''vunits'', ''x_0'', ''y_0'', ''zone'', ''a'',
    ''alpha'', ''azi'', ''b'', ''belgium'', ''beta'', ''czech'', ''e'', ''ellps'', ''es'',
    ''f'', ''gamma'', ''geoc'', ''guam'', ''h'', ''k'', ''K'', ''k_0'', ''lat_0'',
    ''lat_1'', ''lat_2'', ''lat_b'', ''lat_t'', ''lat_ts'', ''lon_0'', ''lon_1'',
    ''lon_2'', ''lonc'', ''lsat'', ''m'', ''M'', ''n'', ''no_cut'', ''no_off'', ''no_rot'',
    ''ns'', ''o_alpha'', ''o_lat_1'', ''o_lat_2'', ''o_lat_c'', ''o_lat_p'', ''o_lon_1'',
    ''o_lon_2'', ''o_lon_c'', ''o_lon_p'', ''o_proj'', ''over'', ''p'', ''path'', ''proj'',
    ''q'', ''R'', ''R_a'', ''R_A'', ''rf'', ''R_g'', ''R_h'', ''R_lat_a'', ''R_lat_g'',
    ''rot'', ''R_V'', ''s'', ''south'', ''sym'', ''t'', ''theta'', ''tilt'', ''to_meter'',
    ''units'', ''vopt'', ''W'', ''westo'', ''x_0'', ''y_0'', ''zone'']"
  by (simp add: param_rows_def first_token_def is_space_def strip_def lstrip_def)

lemma all_proj_keys_eq: "all_proj_keys = [
    ''axis'', ''datum'', ''init'', ''lon_wrap'', ''nadgrids'', ''no_defs'', ''pm'',
    ''towgs84'', ''vto_meter'', ''vunits'', ''a'', ''alpha'', ''azi'', ''b'', ''belgium'',
    ''beta'', ''czech'', ''e'', ''ellps'', ''es'', ''f'', ''gamma'', ''geoc'', ''guam'',
    ''h'', ''k'', ''K'', ''k_0'', ''lat_0'', ''lat_1'', ''lat_2'', ''lat_b'', ''lat_t'',
    ''lat_ts'', ''lon_0'', ''lon_1'', ''lon_2'', ''lonc'', ''lsat'', ''m'', ''M'', ''n'',
    ''no_cut'', ''no_off'', ''no_rot'', ''ns'', ''o_alpha'', ''o_lat_1'', ''o_lat_2'',
    ''o_lat_c'', ''o_lat_p'', ''o_lon_1'', ''o_lon_2'', ''o_lon_c'', ''o_lon_p'',
    ''o_proj'', ''over'', ''p'', ''path'', ''proj'', ''q'', ''R'', ''R_a'', ''R_A'',
    ''rf'', ''R_g'', ''R_h'', ''R_lat_a'', ''R_lat_g'', ''rot'', ''R_V'', ''s'', ''south'',
    ''sym'', ''t'', ''theta'', ''tilt'', ''to_meter'', ''units'', ''vopt'', ''W'',
    ''westo'', ''x_0'', ''y_0'', ''zone'', ''no_mayo'']"
proof -
  have "map key_of_line param_rows = map (\<lambda>l. strip (lstrip ''+'' (first_token l))) param_rows"
    using param_rows_not_blank by (simp add: key_of_line_first_token)
  then show ?thesis
    by (simp add: all_proj_keys_def param_lines_eq row_keys)
qed

subsection \<open>Splitting at a separator\<close>

lemmas run_defs =
  from_string_def startswith_def upper_def upper_char_def strip_def is_space_def lstrip_def
  proj_items_def split_ws_def split_on_def parse_def py_int_def int_strip_def is_int_space_def
  parse_nat_def digit_of_def crs_of_def from_epsg_def

lemma split_on_no_sep: "sep \<notin> set s \<Longrightarrow> split_on sep s = [s]"
  by (simp add: split_on_def split_on_aux_end)

lemma split_on_sep: "sep \<notin> set a \<Longrightarrow> split_on sep (a @ sep # b) = a # split_on sep b"
  using split_on_aux_no_sep [of sep a "[]" b] by (simp add: split_on_def)

lemma split_at_first:
  assumes "sep \<in> set s"
  shows "s = takeWhile (\<lambda>c. c \<noteq> sep) s @ sep # tl (dropWhile (\<lambda>c. c \<noteq> sep) s)"
proof -
  have "dropWhile (\<lambda>c. c \<noteq> sep) s \<noteq> []"
    using assms by simp
  moreover from this have "hd (dropWhile (\<lambda>c. c \<noteq> sep) s) = sep"
    using hd_dropWhile [of "\<lambda>c. c \<noteq> sep" s] by simp
  ultimately have "dropWhile (\<lambda>c. c \<noteq> sep) s = sep # tl (dropWhile (\<lambda>c. c \<noteq> sep) s)"
    by (metis list.collapse)
  then show ?thesis
    by (metis takeWhile_dropWhile_id)
qed

lemma takeWhile_no_sep: "sep \<notin> set (takeWhile (\<lambda>c. c \<noteq> sep) s)"
  by (auto dest: set_takeWhileD)

lemma split_on_first:
  assumes "sep \<in> set s"
  shows "split_on sep s =
         takeWhile (\<lambda>c. c \<noteq> sep) s # split_on sep (tl (dropWhile (\<lambda>c. c \<noteq> sep) s))"
  using split_on_sep [OF takeWhile_no_sep, of sep s "tl (dropWhile (\<lambda>c. c \<noteq> sep) s)"]
    split_at_first [OF assms] by simp

lemma takeWhile_all: "sep \<notin> set s \<Longrightarrow> takeWhile (\<lambda>c. c \<noteq> sep) s = s"
  by (induction s) auto

lemma split_on_Cons: "\<exists>rest. split_on sep s = takeWhile (\<lambda>c. c \<noteq> sep) s # rest"
proof (cases "sep \<in> set s")
  case True
  then show ?thesis using split_on_first by blast
next
  case False
  show ?thesis
    by (rule exI [of _ "[]"]) (simp only: split_on_no_sep [OF False] takeWhile_all [OF False])
qed

lemma count_list_0_iff: "count_list s x = 0 \<longleftrightarrow> x \<notin> set s"
  by (induction s) auto

lemma count_list_first:
  assumes "sep \<in> set s"
  shows "count_list s sep = Suc (count_list (tl (dropWhile (\<lambda>c. c \<noteq> sep) s)) sep)"
proof -
  have "count_list (takeWhile (\<lambda>c. c \<noteq> sep) s) sep = 0"
    using takeWhile_no_sep [of sep s] by (simp add: count_list_0_iff)
  then have "count_list (takeWhile (\<lambda>c. c \<noteq> sep) s @ sep # tl (dropWhile (\<lambda>c. c \<noteq> sep) s)) sep
      = Suc (count_list (tl (dropWhile (\<lambda>c. c \<noteq> sep) s)) sep)"
    by simp
  then show ?thesis
    using split_at_first [OF assms] by simp
qed

subsection \<open>Splitting at whitespace, joining, trimming\<close>

lemma split_ws_aux_tokens:
  "\<forall>c\<in>set cur. \<not> is_space c \<Longrightarrow> t \<in> set (split_ws_aux cur s) \<Longrightarrow>
   t \<noteq> [] \<and> (\<forall>c\<in>set t. \<not> is_space c)"
proof (induction s arbitrary: cur)
  case Nil
  then show ?case by (cases "cur = []") auto
next
  case (Cons a s)
  show ?case
  proof (cases "is_space a")
    case True
    then have "t = cur \<and> cur \<noteq> [] \<or> t \<in> set (split_ws_aux [] s)"
      using Cons.prems(2) by (cases "cur = []") auto
    then show ?thesis
    proof
      assume "t = cur \<and> cur \<noteq> []"
      then show ?thesis using Cons.prems(1) by blast
    next
      assume "t \<in> set (split_ws_aux [] s)"
      then show ?thesis using Cons.IH [of "[]"] by simp
    qed
  next
    case False
    then have "t \<in> set (split_ws_aux (cur @ [a]) s)"
      using Cons.prems(2) by simp
    moreover have "\<forall>c\<in>set (cur @ [a]). \<not> is_space c"
      using Cons.prems(1) False by simp
    ultimately show ?thesis
      using Cons.IH [of "cur @ [a]"] by blast
  qed
qed

lemma split_ws_tokens: "\<forall>t\<in>set (split_ws s). t \<noteq> [] \<and> (\<forall>c\<in>set t. \<not> is_space c)"
  using split_ws_aux_tokens [of "[]" _ s] by (simp add: split_ws_def)

lemma concat_split_ws_aux:
  "concat (split_ws_aux cur s) = cur @ filter (\<lambda>c. \<not> is_space c) s"
proof (induction s arbitrary: cur)
  case Nil
  then show ?case by simp
next
  case (Cons a s)
  show ?case
  proof (cases "is_space a")
    case True
    then show ?thesis
      using Cons.IH [of "[]"] by simp
  next
    case False
    then show ?thesis
      using Cons.IH [of "cur @ [a]"] by simp
  qed
qed

lemma concat_split_ws: "concat (split_ws s) = filter (\<lambda>c. \<not> is_space c) s"
  by (simp add: split_ws_def concat_split_ws_aux)

lemma filter_dropWhile: "filter (\<lambda>c. \<not> P c) (dropWhile P s) = filter (\<lambda>c. \<not> P c) s"
  by (induction s) auto

lemma filter_strip: "filter (\<lambda>c. \<not> is_space c) (strip s) = filter (\<lambda>c. \<not> is_space c) s"
proof -
  have "filter (\<lambda>c. \<not> is_space c) (strip s) =
        rev (filter (\<lambda>c. \<not> is_space c) (dropWhile is_space (rev (dropWhile is_space s))))"
    by (simp add: strip_def rev_filter)
  also have "\<dots> = rev (filter (\<lambda>c. \<not> is_space c) (rev (dropWhile is_space s)))"
    by (simp only: filter_dropWhile)
  also have "\<dots> = filter (\<lambda>c. \<not> is_space c) (dropWhile is_space s)"
    by (simp add: rev_filter)
  finally show ?thesis
    by (simp only: filter_dropWhile)
qed

lemma set_strip: "set (strip s) \<subseteq> set s"
proof -
  have "set (strip s) \<subseteq> set (dropWhile is_space s)"
    unfolding strip_def using set_dropWhileD [of _ is_space "rev (dropWhile is_space s)"] by auto
  then show ?thesis
    using set_dropWhileD [of _ is_space s] by auto
qed

lemma dropWhile_none: "\<forall>c\<in>set s. \<not> P c \<Longrightarrow> dropWhile P s = s"
  by (cases s) auto

lemma strip_id: "s \<noteq> [] \<Longrightarrow> \<not> is_space (hd s) \<Longrightarrow> \<not> is_space (last s) \<Longrightarrow> strip s = s"
proof -
  assume a: "s \<noteq> []" "\<not> is_space (hd s)" "\<not> is_space (last s)"
  have 1: "dropWhile is_space s = s"
    using a by (simp add: dropWhile_eq_self_iff)
  have "\<not> is_space (hd (rev s))"
    using a by (simp add: hd_rev)
  then have 2: "dropWhile is_space (rev s) = rev s"
    by (simp add: dropWhile_eq_self_iff)
  show ?thesis
    by (simp add: strip_def 1 2)
qed

lemma space_is_space: "is_space CHR '' ''"
  by (simp add: is_space_def)

lemma split_ws_join:
  "\<forall>t\<in>set toks. t \<noteq> [] \<and> (\<forall>c\<in>set t. \<not> is_space c) \<Longrightarrow>
   split_ws (str_join '' '' toks) = toks"
proof (induction toks)
  case Nil
  then show ?case by (simp add: split_ws_def)
next
  case (Cons t toks)
  have t: "\<forall>c\<in>set t. \<not> is_space c" and ne: "[] @ t \<noteq> []"
    using Cons.prems by simp_all
  show ?case
  proof (cases toks)
    case Nil
    then show ?thesis
      using split_ws_aux_last [OF t ne] by (simp add: split_ws_def)
  next
    case (Cons u us)
    have "split_ws (str_join '' '' (t # toks)) =
          split_ws_aux [] (t @ CHR '' '' # str_join '' '' toks)"
      using Cons by (simp add: split_ws_def)
    also have "\<dots> = t # split_ws_aux [] (str_join '' '' toks)"
      using split_ws_aux_token [OF t ne space_is_space] by simp
    also have "split_ws_aux [] (str_join '' '' toks) = toks"
      using Cons.IH Cons.prems by (simp add: split_ws_def)
    finally show ?thesis .
  qed
qed

lemma set_str_join: "c \<in> set (str_join sep toks) \<Longrightarrow> c \<in> set sep \<or> (\<exists>t\<in>set toks. c \<in> set t)"
proof (induction toks)
  case Nil
  then show ?case by simp
next
  case (Cons t toks)
  show ?case
  proof (cases toks)
    case Nil
    then show ?thesis using Cons.prems by simp
  next
    case (Cons u us)
    then have "c \<in> set t \<or> c \<in> set sep \<or> c \<in> set (str_join sep toks)"
      using Cons.prems by auto
    then show ?thesis
      using Cons.IH by auto
  qed
qed

lemma str_join_hd: "toks \<noteq> [] \<Longrightarrow> hd toks \<noteq> [] \<Longrightarrow>
  str_join sep toks \<noteq> [] \<and> hd (str_join sep toks) = hd (hd toks)"
proof -
  assume a: "toks \<noteq> []" "hd toks \<noteq> []"
  then obtain t ts where toks: "toks = t # ts" by (cases toks) auto
  then have "t \<noteq> []" using a by simp
  then show ?thesis
    by (cases ts) (simp_all add: toks)
qed

lemma str_join_last: "sep \<noteq> [] \<Longrightarrow> toks \<noteq> [] \<Longrightarrow> last toks \<noteq> [] \<Longrightarrow>
  last (str_join sep toks) = last (last toks)"
proof (induction toks)
  case Nil
  then show ?case by simp
next
  case (Cons t toks)
  show ?case
  proof (cases toks)
    case Nil
    then show ?thesis by simp
  next
    case (Cons u us)
    have l: "last toks \<noteq> []" using Cons.prems Cons by simp
    have "str_join sep toks \<noteq> []"
      using Cons l Cons.prems(1) by (cases us) simp_all
    then have "last (str_join sep (t # toks)) = last (str_join sep toks)"
      using Cons by simp
    then show ?thesis
      using Cons.IH l Cons Cons.prems(1) by simp
  qed
qed

lemma startswith_iff: "startswith s p \<longleftrightarrow> (\<exists>r. s = p @ r)"
proof
  assume "startswith s p"
  then have "s = p @ drop (length p) s"
    unfolding startswith_def by (metis append_take_drop_id)
  then show "\<exists>r. s = p @ r" ..
next
  assume "\<exists>r. s = p @ r"
  then show "startswith s p"
    unfolding startswith_def by auto
qed

lemma upper_char_colon: "upper_char c = CHR '':'' \<Longrightarrow> c = CHR '':''"
  by (simp add: upper_char_def split: if_splits)

lemma epsg_has_colon:
  assumes "startswith (upper (strip prjs)) ''EPSG:''"
  shows "CHR '':'' \<in> set prjs"
proof -
  obtain r where "map upper_char (strip prjs) = ''EPSG:'' @ r"
    using assms by (auto simp: startswith_iff upper_def)
  then obtain c1 c2 c3 c4 c5 rest where s: "strip prjs = c1 # c2 # c3 # c4 # c5 # rest"
    and c5: "upper_char c5 = CHR '':''"
    by (auto simp: map_eq_Cons_conv)
  have "c5 = CHR '':''"
    using c5 by (rule upper_char_colon)
  then have "CHR '':'' \<in> set (strip prjs)"
    using s by simp
  then show ?thesis
    using set_strip by blast
qed

lemma epsg_split:
  assumes "CHR '':'' \<in> set prjs"
  shows "\<exists>a rest. split_on CHR '':'' prjs = a # epsg_segment prjs # rest"
proof -
  obtain rest where
    "split_on CHR '':'' (tl (dropWhile (\<lambda>c. c \<noteq> CHR '':'') prjs)) = epsg_segment prjs # rest"
    using split_on_Cons [of "CHR '':''" "tl (dropWhile (\<lambda>c. c \<noteq> CHR '':'') prjs)"]
    by (auto simp: epsg_segment_def)
  then show ?thesis
    using split_on_first [OF assms] by simp
qed

subsection \<open>Integers written and read back\<close>

lemma digit_cases: "d < 10 \<Longrightarrow> d \<in> {0, 1, 2, 3, 4, 5, 6, 7, 8, 9 :: nat}"
  by auto

lemma digit_of_digit_char: "d < 10 \<Longrightarrow> digit_of (digit_char d) = Some d"
  using digit_cases [of d] by (auto simp: digit_char_def digit_of_def)

lemma digit_char_not_space: "d < 10 \<Longrightarrow> \<not> is_space (digit_char d)"
  using digit_cases [of d] by (auto simp: digit_char_def is_space_def)

lemma digit_of_other:
  "digit_of CHR ''_'' = None" "digit_of CHR ''-'' = None" "digit_of CHR ''+'' = None"
  "digit_of CHR ''='' = None" "digit_of CHR ''{'' = None"
  "digit_of CHR ''T'' = None" "digit_of CHR ''t'' = None"
  "digit_of CHR ''F'' = None" "digit_of CHR ''f'' = None"
  by (simp_all add: digit_of_def)

lemma parse_digits_all_digits:
  "all_digits s \<Longrightarrow>
   parse_digits acc s = Some (foldl (\<lambda>a c. a * 10 + the (digit_of c)) acc s)"
proof (induction acc s rule: parse_digits.induct)
  case (1 acc)
  then show ?case by simp
next
  case (2 acc c)
  then show ?case by (auto simp: all_digits_def)
next
  case (3 acc c d ds)
  have c: "c \<noteq> CHR ''_''" and dc: "digit_of c \<noteq> None"
    using "3.prems" digit_of_other(1) by (auto simp: all_digits_def)
  then obtain v where v: "digit_of c = Some v" by auto
  have "all_digits (d # ds)"
    using "3.prems" by (simp add: all_digits_def)
  then show ?case
    using "3.IH"(2) [OF c v] c v by simp
qed

lemma parse_nat_all_digits:
  "s \<noteq> [] \<Longrightarrow> all_digits s \<Longrightarrow>
   parse_nat s = Some (foldl (\<lambda>a c. a * 10 + the (digit_of c)) 0 s)"
proof -
  assume ne: "s \<noteq> []" and ad: "all_digits s"
  obtain c cs where s: "s = c # cs" using ne by (cases s) auto
  obtain v where v: "digit_of c = Some v" using ad by (auto simp: s all_digits_def)
  have "all_digits cs" using ad by (simp add: s all_digits_def)
  then show ?thesis
    by (simp add: s parse_nat_def v parse_digits_all_digits)
qed

lemma str_nat_eq:
  "str_nat n = (if n < 10 then [digit_char n] else str_nat (n div 10) @ [digit_char (n mod 10)])"
  by (rule str_nat.simps)

declare str_nat.simps [simp del]

lemma str_nat_not_Nil: "str_nat n \<noteq> []"
  by (subst str_nat_eq) simp

lemma str_nat_digit_chars: "c \<in> set (str_nat n) \<Longrightarrow> \<exists>d<10. c = digit_char d"
proof (induction n rule: str_nat.induct)
  case (1 n)
  show ?case
  proof (cases "n < 10")
    case True
    then show ?thesis
      using "1.prems" by (subst (asm) str_nat_eq) auto
  next
    case False
    then have "c \<in> set (str_nat (n div 10)) \<or> c = digit_char (n mod 10)"
      using "1.prems" by (subst (asm) str_nat_eq) auto
    then show ?thesis
    proof
      assume "c \<in> set (str_nat (n div 10))"
      then show ?thesis using "1.IH" False by simp
    next
      assume "c = digit_char (n mod 10)"
      moreover have "n mod 10 < 10" by simp
      ultimately show ?thesis by blast
    qed
  qed
qed

lemma str_nat_all_digits: "all_digits (str_nat n)"
  unfolding all_digits_def using str_nat_digit_chars digit_of_digit_char by fastforce

lemma str_nat_value:
  "foldl (\<lambda>a c. a * 10 + the (digit_of c)) acc (str_nat n) = acc * 10 ^ length (str_nat n) + n"
proof (induction n arbitrary: acc rule: str_nat.induct)
  case (1 n)
  show ?case
  proof (cases "n < 10")
    case True
    then show ?thesis
      by (subst (1 2) str_nat_eq) (simp add: digit_of_digit_char)
  next
    case False
    have d: "digit_of (digit_char (n mod 10)) = Some (n mod 10)"
      by (simp add: digit_of_digit_char)
    have "foldl (\<lambda>a c. a * 10 + the (digit_of c)) acc (str_nat n) =
          foldl (\<lambda>a c. a * 10 + the (digit_of c)) acc (str_nat (n div 10)) * 10 + n mod 10"
      using False d by (subst str_nat_eq) simp
    also have "\<dots> = (acc * 10 ^ length (str_nat (n div 10)) + n div 10) * 10 + n mod 10"
      using "1.IH" False by simp
    also have "\<dots> = acc * 10 ^ Suc (length (str_nat (n div 10))) + (n div 10 * 10 + n mod 10)"
      by (simp add: algebra_simps)
    also have "Suc (length (str_nat (n div 10))) = length (str_nat n)"
      using False by (subst (2) str_nat_eq) simp
    finally show ?thesis by simp
  qed
qed

lemma parse_nat_str_nat: "parse_nat (str_nat n) = Some n"
  using parse_nat_all_digits [OF str_nat_not_Nil str_nat_all_digits, of n]
  by (simp add: str_nat_value)

lemma int_space_is_space: "is_int_space c \<Longrightarrow> is_space c"
  by (auto simp: is_int_space_def is_space_def)

lemma int_strip_no_space: "\<forall>c\<in>set s. \<not> is_int_space c \<Longrightarrow> int_strip s = s"
  by (simp add: int_strip_def dropWhile_none)

lemma str_nat_no_space: "c \<in> set (str_nat n) \<Longrightarrow> \<not> is_space c"
  using str_nat_digit_chars digit_char_not_space by blast

lemma minus_not_space: "\<not> is_space CHR ''-''"
  by (simp add: is_space_def)

lemma str_int_no_space: "c \<in> set (str_int i) \<Longrightarrow> \<not> is_space c"
  using str_nat_no_space minus_not_space by (auto simp: str_int_def split: if_splits)

lemma py_int_str_int: "py_int (str_int i) = Some i"
proof -
  have st: "int_strip (str_int i) = str_int i"
    using str_int_no_space int_space_is_space by (intro int_strip_no_space) blast
  show ?thesis
  proof (cases "i < 0")
    case True
    then show ?thesis
      using st by (simp add: py_int_def str_int_def parse_nat_str_nat)
  next
    case False
    obtain c cs where s: "str_nat (nat i) = c # cs"
      using str_nat_not_Nil [of "nat i"] by (cases "str_nat (nat i)") auto
    then have "c \<in> set (str_nat (nat i))" by simp
    then obtain d where "d < 10" "c = digit_char d"
      using str_nat_digit_chars by blast
    then have "digit_of c = Some d"
      by (simp add: digit_of_digit_char)
    then have c: "c \<noteq> CHR ''-''" "c \<noteq> CHR ''+''"
      using digit_of_other by auto
    have "parse_nat (c # cs) = Some (nat i)"
      using parse_nat_str_nat [of "nat i"] s by simp
    then show ?thesis
      using st False c s by (simp add: py_int_def str_int_def)
  qed
qed

lemma str_int_chars: "c \<in> set (str_int i) \<Longrightarrow> c = CHR ''-'' \<or> digit_of c \<noteq> None"
proof -
  assume "c \<in> set (str_int i)"
  then have "c = CHR ''-'' \<or> (\<exists>n. c \<in> set (str_nat n))"
    by (auto simp: str_int_def split: if_splits)
  then show ?thesis
    using str_nat_digit_chars digit_of_digit_char by fastforce
qed

lemma str_int_not_Nil: "str_int i \<noteq> []"
  by (simp add: str_int_def str_nat_not_Nil)

lemma str_int_safe: "token_safe (str_int i)"
proof -
  have "\<not> is_space c \<and> c \<noteq> CHR ''='' \<and> c \<noteq> CHR ''{''" if "c \<in> set (str_int i)" for c
    using str_int_chars [OF that] str_int_no_space [OF that] digit_of_other by auto
  then show ?thesis
    using str_int_not_Nil by (simp add: token_safe_def)
qed

lemma str_int_not_bool:
  "str_int i \<noteq> ''True''" "str_int i \<noteq> ''true''" "str_int i \<noteq> ''False''"
  "str_int i \<noteq> ''false''"
proof -
  have T: "CHR ''T'' \<notin> set (str_int i)"
    using str_int_chars [of "CHR ''T''" i] digit_of_other by auto
  have t: "CHR ''t'' \<notin> set (str_int i)"
    using str_int_chars [of "CHR ''t''" i] digit_of_other by auto
  have F: "CHR ''F'' \<notin> set (str_int i)"
    using str_int_chars [of "CHR ''F''" i] digit_of_other by auto
  have f: "CHR ''f'' \<notin> set (str_int i)"
    using str_int_chars [of "CHR ''f''" i] digit_of_other by auto
  show "str_int i \<noteq> ''True''" using T by auto
  show "str_int i \<noteq> ''true''" using t by auto
  show "str_int i \<noteq> ''False''" using F by auto
  show "str_int i \<noteq> ''false''" using f by auto
qed

lemma parse_str_int: "parse L (str_int i) = PInt i"
  by (simp add: parse_def str_int_not_bool py_int_str_int)

lemma str_int_0: "str_int 0 = ''0''"
  by (simp add: str_int_def str_nat.simps digit_char_def)

lemma str_int_4326: "str_int 4326 = ''4326''"
  by (simp add: str_int_def str_nat.simps digit_char_def)

lemma py_int_examples:
  "py_int ''4326'' = Some 4326" "py_int ''-5'' = Some (- 5)" "py_int ''43x6'' = None"
  "py_int [] = None"
  by (simp_all add: py_int_def int_strip_def is_int_space_def parse_nat_def digit_of_def)

subsection \<open>What an integer literal may contain\<close>

lemma parse_digits_chars:
  "parse_digits acc s = Some r \<Longrightarrow> c \<in> set s \<Longrightarrow> c = CHR ''_'' \<or> digit_of c \<noteq> None"
proof (induction acc s arbitrary: r rule: parse_digits.induct)
  case (1 acc)
  then show ?case by simp
next
  case (2 acc x)
  then show ?case by (auto split: option.splits)
next
  case (3 acc x d ds)
  show ?case
  proof (cases "x = CHR ''_''")
    case True
    then obtain v where v: "digit_of d = Some v"
      and p: "parse_digits (acc * 10 + v) ds = Some r"
      using "3.prems"(1) by (auto split: option.splits)
    have "c = x \<or> c = d \<or> c \<in> set ds"
      using "3.prems"(2) by auto
    then show ?thesis
      using True v "3.IH"(1) [OF True v p] by auto
  next
    case False
    then obtain v where v: "digit_of x = Some v"
      and p: "parse_digits (acc * 10 + v) (d # ds) = Some r"
      using "3.prems"(1) by (auto split: option.splits)
    have "c = x \<or> c \<in> set (d # ds)"
      using "3.prems"(2) by auto
    then show ?thesis
      using False v "3.IH"(2) [OF False v p] by auto
  qed
qed

lemma parse_nat_chars:
  "parse_nat s = Some r \<Longrightarrow> c \<in> set s \<Longrightarrow> c = CHR ''_'' \<or> digit_of c \<noteq> None"
  using parse_digits_chars by (cases s) (auto simp: parse_nat_def split: option.splits)

lemma set_int_strip_cases: "c \<in> set s \<Longrightarrow> c \<in> set (int_strip s) \<or> is_int_space c"
proof -
  assume c: "c \<in> set s"
  define u where "u = dropWhile is_int_space s"
  have "s = takeWhile is_int_space s @ u"
    by (simp add: u_def)
  then have "c \<in> set (takeWhile is_int_space s) \<or> c \<in> set u"
    using c by (metis Un_iff set_append)
  then have 1: "is_int_space c \<or> c \<in> set u"
    by (auto dest: set_takeWhileD)
  have "rev u = takeWhile is_int_space (rev u) @ dropWhile is_int_space (rev u)"
    by simp
  then have "set u = set (takeWhile is_int_space (rev u)) \<union> set (dropWhile is_int_space (rev u))"
    by (metis set_append set_rev)
  then have 2: "c \<in> set u \<Longrightarrow> is_int_space c \<or> c \<in> set (int_strip s)"
    by (auto simp: int_strip_def u_def dest: set_takeWhileD)
  show ?thesis using 1 2 by blast
qed

lemma py_int_chars:
  assumes "py_int v = Some i" "c \<in> set v"
  shows "is_int_space c \<or> c = CHR ''+'' \<or> c = CHR ''-'' \<or> c = CHR ''_'' \<or> digit_of c \<noteq> None"
proof -
  consider "is_int_space c" | "c \<in> set (int_strip v)"
    using set_int_strip_cases [OF assms(2)] by blast
  then show ?thesis
  proof cases
    case 1
    then show ?thesis by simp
  next
    case 2
    obtain x xs where s: "int_strip v = x # xs"
      using 2 by (cases "int_strip v") auto
    have "c = x \<or> c \<in> set xs" using 2 s by simp
    then show ?thesis
      using assms(1) parse_nat_chars [of xs _ c] parse_nat_chars [of "x # xs" _ c]
      by (auto simp: py_int_def s split: if_splits)
  qed
qed

subsection \<open>Tokens and items\<close>

lemma item_of_split:
  "item_of L (split_on CHR ''='' p) = item_one_eq L p"
proof (cases "CHR ''='' \<in> set p")
  case False
  have "count_list p CHR ''='' \<noteq> 1"
    using False count_list_0_iff [of p "CHR ''=''"] by simp
  then show ?thesis
    by (simp add: split_on_no_sep [OF False] takeWhile_all [OF False] item_one_eq_def)
next
  case True
  define a where "a = takeWhile (\<lambda>c. c \<noteq> CHR ''='') p"
  define b where "b = tl (dropWhile (\<lambda>c. c \<noteq> CHR ''='') p)"
  have sp: "split_on CHR ''='' p = a # split_on CHR ''='' b"
    using split_on_first [OF True] by (simp add: a_def b_def)
  have cnt: "count_list p CHR ''='' = Suc (count_list b CHR ''='')"
    using count_list_first [OF True] by (simp add: b_def)
  show ?thesis
  proof (cases "CHR ''='' \<in> set b")
    case False
    then show ?thesis
      using sp cnt by (simp add: split_on_no_sep item_one_eq_def count_list_0_iff a_def b_def)
  next
    case True
    obtain r where r: "split_on CHR ''='' b = takeWhile (\<lambda>c. c \<noteq> CHR ''='') b # r"
      using split_on_Cons by blast
    have "r \<noteq> []"
      using split_on_first [OF True] r split_on_not_Nil by auto
    then obtain y ys where "r = y # ys"
      by (cases r) auto
    then have "item_of L (split_on CHR ''='' p) = (a, PBool True)"
      using sp r by simp
    moreover have "count_list p CHR ''='' \<noteq> 1"
      using cnt True by (simp add: count_list_0_iff)
    ultimately show ?thesis
      by (simp add: item_one_eq_def a_def)
  qed
qed

lemma proj_items_one_eq:
  "proj_items L prjs = map (\<lambda>t. item_one_eq L (lstrip ''+'' t)) (split_ws (strip prjs))"
  by (simp add: proj_items_def item_of_split)

lemma item_one_eq_bare: "CHR ''='' \<notin> set p \<Longrightarrow> item_one_eq L p = (p, PBool True)"
  by (simp add: item_one_eq_def takeWhile_all count_list_0_iff)

lemma item_one_eq_value:
  assumes "CHR ''='' \<notin> set k" "CHR ''='' \<notin> set v"
  shows "item_one_eq L (k @ CHR ''='' # v) = (k, parse L v)"
proof -
  have "count_list (k @ CHR ''='' # v) CHR ''='' = 1"
    using assms count_list_0_iff [of k "CHR ''=''"] count_list_0_iff [of v "CHR ''=''"]
    by simp
  moreover have "takeWhile (\<lambda>c. c \<noteq> CHR ''='') (k @ CHR ''='' # v) = k"
    using assms by (auto simp: takeWhile_tail)
  moreover have "dropWhile (\<lambda>c. c \<noteq> CHR ''='') (k @ CHR ''='' # v) = CHR ''='' # v"
    using assms by (auto simp: dropWhile_append3)
  ultimately show ?thesis
    by (simp add: item_one_eq_def)
qed

lemma from_string_proj:
  assumes "CHR ''{'' \<notin> set prjs" "\<not> startswith (upper (strip prjs)) ''EPSG:''"
  shows "from_string L prjs =
     (let out = crs_of (filter (\<lambda>kv. fst kv \<in> set all_proj_keys) (proj_items L prjs))
      in if out = [] then Inl (CRSError (''crs is empty or invalid: '' @ prjs))
         else Inr (PDict out))"
  using assms by (simp add: from_string_def)

subsection \<open>Dictionaries\<close>

lemma map_of_dict_set: "map_of (dict_set d k v) = (map_of d)(k \<mapsto> v)"
  by (induction d) (auto simp: fun_eq_iff)

lemma keys_dict_set:
  "map fst (dict_set d k v) = (if k \<in> set (map fst d) then map fst d else map fst d @ [k])"
  by (induction d) (fastforce simp: image_iff)+

lemma crs_of_snoc: "crs_of (kvs @ [kv]) = dict_set (crs_of kvs) (fst kv) (snd kv)"
  by (simp add: crs_of_def)

lemma first_seen_snoc:
  "rev (remdups (rev (ks @ [k]))) =
   (if k \<in> set ks then rev (remdups (rev ks)) else rev (remdups (rev ks)) @ [k])"
  by simp

lemma keys_crs_of: "map fst (crs_of kvs) = rev (remdups (rev (map fst kvs)))"
proof (induction kvs rule: rev_induct)
  case Nil
  then show ?case by (simp add: crs_of_def)
next
  case (snoc kv kvs)
  have "set (map fst (crs_of kvs)) = set (map fst kvs)"
    using snoc by simp
  then show ?case
    using snoc first_seen_snoc [of "map fst kvs" "fst kv"]
    by (simp add: crs_of_snoc keys_dict_set del: set_map)
qed

lemma map_of_crs_of: "map_of (crs_of kvs) = map_of (rev kvs)"
proof (induction kvs rule: rev_induct)
  case Nil
  then show ?case by (simp add: crs_of_def)
next
  case (snoc kv kvs)
  then show ?case
    by (cases kv) (simp add: crs_of_snoc map_of_dict_set)
qed

lemma crs_of_Nil_iff: "crs_of kvs = [] \<longleftrightarrow> kvs = []"
proof -
  have "map fst (crs_of kvs) = [] \<longleftrightarrow> kvs = []"
    by (simp add: keys_crs_of)
  then show ?thesis by simp
qed

lemma dict_set_new: "k \<notin> fst ` set d \<Longrightarrow> dict_set d k v = d @ [(k, v)]"
  by (induction d) auto

lemma crs_of_distinct: "distinct (map fst kvs) \<Longrightarrow> crs_of kvs = kvs"
proof (induction kvs rule: rev_induct)
  case Nil
  then show ?case by (simp add: crs_of_def)
next
  case (snoc kv kvs)
  then have "crs_of kvs = kvs" and "fst kv \<notin> fst ` set kvs"
    by simp_all
  then show ?case
    by (simp add: crs_of_snoc dict_set_new)
qed

subsection \<open>Rendering and sorting\<close>

lemma empty_not_key: "[] \<notin> set all_proj_keys"
  by (simp add: all_proj_keys_eq)

lemma keys_safe: "\<forall>k\<in>set all_proj_keys. token_safe k \<and> hd k \<noteq> CHR ''+''"
  by (simp add: all_proj_keys_eq token_safe_def is_space_def)

lemma render_item_kept:
  assumes "item_kept x"
  shows "render_item L x = render_bare_empty L x"
proof -
  obtain k v where x: "x = (k, v)" by (cases x)
  have k: "k \<noteq> []"
    using assms empty_not_key by (auto simp: x item_kept_def)
  show ?thesis
    using assms k
    by (cases v) (auto simp: x item_kept_def render_item_def render_bare_empty_def part_kept_def)
qed

lemma to_string_bare_empty:
  "to_string L items =
   str_join '' '' (map (render_bare_empty L) (sort_key fst (filter item_kept items)))"
proof -
  have "map (render_item L) (sort_key fst (filter item_kept items)) =
        map (render_bare_empty L) (sort_key fst (filter item_kept items))"
    by (rule map_cong) (simp_all add: render_item_kept)
  then show ?thesis
    unfolding to_string_def by (rule arg_cong)
qed

lemma same_keys_same_items:
  "length a = length b \<Longrightarrow> map fst a = map fst b \<Longrightarrow> set a = set b \<Longrightarrow>
   distinct (map fst a) \<Longrightarrow> a = b"
proof (induction a b rule: list_induct2)
  case Nil
  then show ?case by simp
next
  case (Cons x xs y ys)
  have fst_eq: "fst x = fst y" and m: "map fst xs = map fst ys"
    using Cons.prems(1) by simp_all
  have kx: "fst x \<notin> fst ` set xs" and dxs: "distinct (map fst xs)"
    using Cons.prems(3) by simp_all
  have keq: "fst ` set xs = fst ` set ys"
    using arg_cong [OF m, of set] by simp
  have sets: "insert x (set xs) = insert y (set ys)"
    using Cons.prems(2) by simp
  have "y \<in> insert x (set xs)"
    using sets by blast
  then have xy: "x = y"
    using kx fst_eq by force
  have dx: "x \<notin> set xs"
    using kx by force
  have dy: "y \<notin> set ys"
    using kx keq xy by force
  have "set xs = set ys"
    using sets xy dx dy by (auto simp: insert_eq_iff)
  then have "xs = ys"
    using Cons.IH m dxs by simp
  then show ?case using xy by simp
qed

lemma sort_key_fst_unique:
  fixes xs ys :: "('k::linorder \<times> 'v) list"
  assumes "distinct (map fst xs)" "distinct (map fst ys)" "set xs = set ys"
  shows "sort_key fst xs = sort_key fst ys"
proof -
  let ?a = "sort_key fst xs" and ?b = "sort_key fst ys"
  have da: "distinct (map fst ?a)" and db: "distinct (map fst ?b)"
    using assms by (simp_all add: distinct_map)
  have "set (map fst ?a) = set (map fst ?b)"
    using assms by simp
  then have keys: "map fst ?a = map fst ?b"
    using da db by (intro sorted_distinct_set_unique) simp_all
  then have "length ?a = length ?b"
    using map_eq_imp_length_eq by blast
  then show ?thesis
    using keys da assms by (intro same_keys_same_items) simp_all
qed

lemma distinct_fst_filter: "distinct (map fst xs) \<Longrightarrow> distinct (map fst (filter P xs))"
  by (induction xs) auto

subsection \<open>One item written and read back\<close>

lemma roundtrip_text:
  assumes "roundtrip_value L v" "v \<noteq> PBool True"
  shows "token_safe (py_str L v) \<and> parse L (py_str L v) = v"
  using assms by (cases v) (simp_all add: str_int_safe parse_str_int)

lemma roundtrip_kept:
  assumes "fst x \<in> set all_proj_keys" "roundtrip_value L (snd x)"
  shows "item_kept x"
  using assms by (cases "snd x") (simp_all add: item_kept_def)

lemma render_roundtrip:
  assumes k: "k \<in> set all_proj_keys" and v: "roundtrip_value L v"
  shows "render_item L (k, v) =
         CHR ''+'' # k @ (if v = PBool True then [] else CHR ''='' # py_str L v)"
proof -
  have "v \<noteq> PStr []"
    using v by (auto simp: token_safe_def)
  then show ?thesis
    using render_item_kept [OF roundtrip_kept, of "(k, v)" L] k v
    by (simp add: render_bare_empty_def)
qed

lemma item_roundtrip:
  assumes k: "k \<in> set all_proj_keys" and v: "roundtrip_value L v"
  shows "item_one_eq L (lstrip ''+'' (render_item L (k, v))) = (k, v)"
proof -
  have ks: "token_safe k" and kh: "hd k \<noteq> CHR ''+''"
    using keys_safe k by auto
  then obtain c cs where kc: "k = c # cs" and c: "c \<noteq> CHR ''+''"
    by (cases k) (auto simp: token_safe_def)
  have keq: "CHR ''='' \<notin> set k"
    using ks by (auto simp: token_safe_def)
  have strip_plus: "lstrip ''+'' (CHR ''+'' # k @ s) = k @ s" for s
    using c by (simp add: lstrip_def kc)
  show ?thesis
  proof (cases "v = PBool True")
    case True
    then show ?thesis
      using render_roundtrip [OF k v] strip_plus [of "[]"] item_one_eq_bare [OF keq, of L]
      by simp
  next
    case False
    have t: "token_safe (py_str L v)" and p: "parse L (py_str L v) = v"
      using roundtrip_text [OF v False] by simp_all
    have "CHR ''='' \<notin> set (py_str L v)"
      using t by (auto simp: token_safe_def)
    then show ?thesis
      using render_roundtrip [OF k v] False strip_plus [of "CHR ''='' # py_str L v"]
        item_one_eq_value [OF keq, of "py_str L v" L] p
      by simp
  qed
qed

lemma token_roundtrip:
  assumes k: "k \<in> set all_proj_keys" and v: "roundtrip_value L v"
  shows "render_item L (k, v) \<noteq> [] \<and> hd (render_item L (k, v)) = CHR ''+''
    \<and> (\<forall>c\<in>set (render_item L (k, v)). \<not> is_space c \<and> c \<noteq> CHR ''{'')"
proof -
  have ks: "\<forall>c\<in>set k. \<not> is_space c \<and> c \<noteq> CHR ''{''"
    using keys_safe k by (auto simp: token_safe_def)
  have plus: "\<not> is_space CHR ''+''" and eq: "\<not> is_space CHR ''=''"
    by (simp_all add: is_space_def)
  show ?thesis
  proof (cases "v = PBool True")
    case True
    then show ?thesis
      using render_roundtrip [OF k v] ks plus by simp
  next
    case False
    have "\<forall>c\<in>set (py_str L v). \<not> is_space c \<and> c \<noteq> CHR ''{''"
      using roundtrip_text [OF v False] by (auto simp: token_safe_def)
    then show ?thesis
      using render_roundtrip [OF k v] False ks plus eq by auto
  qed
qed

section \<open>The claims\<close>

text \<open>
  Claim C1 says that every mapping with vocabulary keys and scalar values other than
  false is read back from its encoding. It is not: the text \<^verbatim>\<open>12\<close> comes back as the
  integer 12, the empty text and the text \<^verbatim>\<open>a=b\<close> come back as true, the text \<^verbatim>\<open>a b\<close>
  comes back as \<^verbatim>\<open>a\<close> with a second key \<^verbatim>\<open>b\<close>, and the empty mapping is encoded as the
  empty string, which \<^verbatim>\<open>from_string\<close> rejects.
\<close>

theorem roundtrip_counterexample:
  "''zone'' \<in> set all_proj_keys
   \<and> to_string (table_lib [] []) [(''zone'', PStr ''12'')] = ''+zone=12''
   \<and> from_string (table_lib [] []) (to_string (table_lib [] []) [(''zone'', PStr ''12'')]) =
       Inr (PDict [(''zone'', PInt 12)])
   \<and> map_of [(''zone'', PInt 12 :: string pyval)] ''zone'' \<noteq>
       map_of [(''zone'', PStr ''12'')] ''zone''
   \<and> from_string (table_lib [] []) (to_string (table_lib [] []) [(''zone'', PStr [])]) =
       Inr (PDict [(''zone'', PBool True)])
   \<and> from_string (table_lib [] []) (to_string (table_lib [] []) [(''zone'', PStr ''a=b'')]) =
       Inr (PDict [(''zone'', PBool True)])
   \<and> from_string (table_lib [] []) (to_string (table_lib [] []) [(''zone'', PStr ''a b'')]) =
       Inr (PDict [(''zone'', PStr ''a''), (''b'', PBool True)])
   \<and> from_string (table_lib [] []) (to_string (table_lib [] []) []) =
       Inl (CRSError ''crs is empty or invalid: '')"
proof -
  have z: "''zone'' \<in> set all_proj_keys"
    by (simp add: all_proj_keys_eq)
  have t: "to_string (table_lib [] []) [(''zone'', PStr ''12'')] = ''+zone=12''"
    "to_string (table_lib [] []) [(''zone'', PStr [])] = ''+zone''"
    "to_string (table_lib [] []) [(''zone'', PStr ''a=b'')] = ''+zone=a=b''"
    "to_string (table_lib [] []) [(''zone'', PStr ''a b'')] = ''+zone=a b''"
    "to_string (table_lib [] []) [] = []"
    using z by (simp_all add: to_string_def item_kept_def render_item_def part_kept_def)
  have f: "from_string (table_lib [] []) ''+zone=12'' = Inr (PDict [(''zone'', PInt 12)])"
    "from_string (table_lib [] []) ''+zone'' = Inr (PDict [(''zone'', PBool True)])"
    "from_string (table_lib [] []) ''+zone=a=b'' = Inr (PDict [(''zone'', PBool True)])"
    "from_string (table_lib [] []) ''+zone=a b'' =
       Inr (PDict [(''zone'', PStr ''a''), (''b'', PBool True)])"
    "from_string (table_lib [] []) [] = Inl (CRSError ''crs is empty or invalid: '')"
    by (simp_all add: run_defs all_proj_keys_eq table_lib_def)
  show ?thesis
    unfolding t f using z by simp
qed

text \<open>
  Claim C1, amended. For every non-empty mapping whose keys are in the vocabulary
  and whose values are the value true, integers, floats whose text form is one token
  that \<^verbatim>\<open>parse\<close> reads back as the same float, or non-empty texts without whitespace,
  \<^verbatim>\<open>=\<close> or \<^verbatim>\<open>{\<close> that \<^verbatim>\<open>parse\<close> leaves as text, decoding the encoding gives the same
  key/value pairs, listed in the sorted order of the keys.
\<close>

theorem roundtrip:
  fixes L :: "'f pylib" and M :: "(string \<times> 'f pyval) list"
  assumes ne: "M \<noteq> []" and dist: "distinct (map fst M)"
    and ok: "\<forall>x\<in>set M. fst x \<in> set all_proj_keys \<and> roundtrip_value L (snd x)"
  shows "from_string L (to_string L M) = Inr (PDict (sort_key fst M))
   \<and> map_of (sort_key fst M) = map_of M
   \<and> set (sort_key fst M) = set M
   \<and> sorted (map fst (sort_key fst M))"
proof -
  define S where "S = sort_key fst M"
  define toks where "toks = map (render_item L) S"
  define out where "out = str_join '' '' toks"
  have S_set: "set S = set M" and S_dist: "distinct (map fst S)"
    and S_sorted: "sorted (map fst S)"
    using dist by (simp_all add: S_def distinct_map)
  have "length S = length M"
    by (simp add: S_def)
  then have S_ne: "S \<noteq> []"
    using ne by auto
  have S_ok: "fst x \<in> set all_proj_keys \<and> roundtrip_value L (snd x)" if "x \<in> set S" for x
    using that ok S_set by blast
  have "filter item_kept M = M"
    using ok roundtrip_kept by (intro filter_True) blast
  then have ts: "to_string L M = out"
    by (simp add: to_string_def out_def toks_def S_def)
  have tok: "t \<noteq> [] \<and> hd t = CHR ''+'' \<and> (\<forall>c\<in>set t. \<not> is_space c \<and> c \<noteq> CHR ''{'')"
    if "t \<in> set toks" for t
  proof -
    from that have "t \<in> render_item L ` set S"
      by (simp add: toks_def)
    then obtain x where x: "x \<in> set S" and t: "t = render_item L x"
      by blast
    show ?thesis
      using token_roundtrip [of "fst x" L "snd x"] S_ok [OF x] by (simp add: t)
  qed
  have toks_ne: "toks \<noteq> []"
    using S_ne by (simp add: toks_def)
  then have hd_in: "hd toks \<in> set toks" and last_in: "last toks \<in> set toks"
    by simp_all
  have out_hd: "out \<noteq> [] \<and> hd out = CHR ''+''"
    using str_join_hd [of toks "'' ''"] tok [OF hd_in] toks_ne by (simp add: out_def)
  have "last out = last (last toks)"
    using str_join_last [of "'' ''" toks] tok [OF last_in] toks_ne by (simp add: out_def)
  moreover have "last (last toks) \<in> set (last toks)"
    using tok [OF last_in] by simp
  ultimately have out_last: "\<not> is_space (last out)"
    using tok [OF last_in] by simp
  have plus: "\<not> is_space CHR ''+''"
    by (simp add: is_space_def)
  have strip_out: "strip out = out"
    using out_hd out_last plus by (intro strip_id) simp_all
  have no_brace: "CHR ''{'' \<notin> set out"
  proof
    assume "CHR ''{'' \<in> set out"
    then have "CHR ''{'' \<in> set '' '' \<or> (\<exists>t\<in>set toks. CHR ''{'' \<in> set t)"
      unfolding out_def by (rule set_str_join)
    then show False
      using tok by auto
  qed
  have no_epsg: "\<not> startswith (upper (strip out)) ''EPSG:''"
  proof
    assume "startswith (upper (strip out)) ''EPSG:''"
    then obtain r where r: "map upper_char out = ''EPSG:'' @ r"
      by (auto simp: startswith_iff upper_def strip_out)
    obtain c cs where o: "out = c # cs" and c: "c = CHR ''+''"
      using out_hd by (cases out) auto
    have "upper_char CHR ''+'' = CHR ''E''"
      using r by (simp add: o c)
    then show False
      by (simp add: upper_char_def)
  qed
  have "split_ws out = toks"
    unfolding out_def using tok by (intro split_ws_join) blast
  then have "split_ws (strip out) = toks"
    by (simp only: strip_out)
  then have "proj_items L out = map (\<lambda>x. item_one_eq L (lstrip ''+'' (render_item L x))) S"
    by (simp add: proj_items_one_eq toks_def comp_def)
  also have "\<dots> = S"
  proof (rule map_idI)
    fix x assume "x \<in> set S"
    then show "item_one_eq L (lstrip ''+'' (render_item L x)) = x"
      using item_roundtrip [of "fst x" L "snd x"] S_ok by simp
  qed
  finally have items: "proj_items L out = S" .
  have "filter (\<lambda>kv. fst kv \<in> set all_proj_keys) S = S"
    using S_ok by (intro filter_True) blast
  then have "crs_of (filter (\<lambda>kv. fst kv \<in> set all_proj_keys) (proj_items L out)) = S"
    using crs_of_distinct [OF S_dist] by (simp add: items)
  then have "from_string L out = Inr (PDict S)"
    using from_string_proj [OF no_brace no_epsg, of L] S_ne by simp
  moreover have "map_of S = map_of M"
    using map_of_inject_set [OF S_dist dist] S_set by simp
  ultimately show ?thesis
    using ts S_set S_sorted by (simp add: S_def)
qed

text \<open>A mapping with an integer, a text, a flag and a float, written and read back.\<close>

theorem roundtrip_witness:
  "[(''zone'', PInt 10), (''proj'', PStr ''utm''), (''no_defs'', PBool True),
    (''lat_0'', PFloat ''45.5'')] \<noteq> ([] :: (string \<times> string pyval) list)
   \<and> distinct (map fst [(''zone'', PInt 10 :: string pyval), (''proj'', PStr ''utm''),
        (''no_defs'', PBool True), (''lat_0'', PFloat ''45.5'')])
   \<and> ''zone'' \<in> set all_proj_keys \<and> ''proj'' \<in> set all_proj_keys
   \<and> ''no_defs'' \<in> set all_proj_keys \<and> ''lat_0'' \<in> set all_proj_keys
   \<and> roundtrip_value (table_lib [] [(''45.5'', ''45.5'')]) (PInt 10)
   \<and> roundtrip_value (table_lib [] [(''45.5'', ''45.5'')]) (PStr ''utm'')
   \<and> roundtrip_value (table_lib [] [(''45.5'', ''45.5'')]) (PBool True)
   \<and> roundtrip_value (table_lib [] [(''45.5'', ''45.5'')]) (PFloat ''45.5'')
   \<and> to_string (table_lib [] [(''45.5'', ''45.5'')])
        [(''zone'', PInt 10), (''proj'', PStr ''utm''), (''no_defs'', PBool True),
         (''lat_0'', PFloat ''45.5'')] = ''+lat_0=45.5 +no_defs +proj=utm +zone=10''
   \<and> from_string (table_lib [] [(''45.5'', ''45.5'')])
        (to_string (table_lib [] [(''45.5'', ''45.5'')])
          [(''zone'', PInt 10), (''proj'', PStr ''utm''), (''no_defs'', PBool True),
           (''lat_0'', PFloat ''45.5'')]) =
       Inr (PDict [(''lat_0'', PFloat ''45.5''), (''no_defs'', PBool True),
                   (''proj'', PStr ''utm''), (''zone'', PInt 10)])"
proof -
  define L where "L = table_lib [] [(''45.5'', ''45.5'')]"
  define M :: "(string \<times> string pyval) list" where
    "M = [(''zone'', PInt 10), (''proj'', PStr ''utm''), (''no_defs'', PBool True),
          (''lat_0'', PFloat ''45.5'')]"
  have ne: "M \<noteq> []" and dist: "distinct (map fst M)"
    by (simp_all add: M_def)
  have keys: "''zone'' \<in> set all_proj_keys" "''proj'' \<in> set all_proj_keys"
    "''no_defs'' \<in> set all_proj_keys" "''lat_0'' \<in> set all_proj_keys"
    by (simp_all add: all_proj_keys_eq)
  have lib: "float_str L = (\<lambda>r. r)" "float_parse L ''45.5'' = Some ''45.5''"
    "float_parse L ''utm'' = None"
    by (simp_all add: L_def table_lib_def)
  have ints: "py_int ''45.5'' = None" "py_int ''utm'' = None"
    by (simp_all add: run_defs)
  have vals: "roundtrip_value L (PInt 10)" "roundtrip_value L (PStr ''utm'')"
    "roundtrip_value L (PBool True)" "roundtrip_value L (PFloat ''45.5'')"
    by (simp_all add: token_safe_def is_space_def parse_def lib ints)
  have ok: "\<forall>x\<in>set M. fst x \<in> set all_proj_keys \<and> roundtrip_value L (snd x)"
    using keys vals by (simp add: M_def)
  have sorted: "sort_key fst M =
      [(''lat_0'', PFloat ''45.5''), (''no_defs'', PBool True), (''proj'', PStr ''utm''),
       (''zone'', PInt 10)]"
    by (simp add: M_def)
  have kept: "filter item_kept M = M"
    using ok roundtrip_kept by (intro filter_True) blast
  have ten: "str_int 10 = ''10''"
    by (simp add: str_int_def str_nat.simps digit_char_def)
  have ts: "to_string L M = ''+lat_0=45.5 +no_defs +proj=utm +zone=10''"
    using keys vals
    by (simp add: to_string_def kept sorted render_roundtrip lib ten)
  have "from_string L (to_string L M) = Inr (PDict (sort_key fst M))"
    using roundtrip [OF ne dist ok] by (elim conjE)
  then show ?thesis
    using ne dist keys vals ts unfolding sorted unfolding M_def L_def by (intro conjI)
qed

text \<open>
  Claim C2 says that every kept value other than true is written as \<^verbatim>\<open>+key=value\<close>. The
  empty text is not: the module writes the bare key, where the wording of the claim
  gives \<^verbatim>\<open>+proj=\<close>.
\<close>

theorem to_string_canonical_counterexample:
  "''proj'' \<in> set all_proj_keys
   \<and> to_string (table_lib [] []) [(''proj'', PStr [])] = ''+proj''
   \<and> encode_spec (table_lib [] []) [(''proj'', PStr [])] = ''+proj=''
   \<and> to_string (table_lib [] []) [(''proj'', PStr [])] \<noteq>
       encode_spec (table_lib [] []) [(''proj'', PStr [])]"
  by (simp add: to_string_def encode_spec_def item_kept_def all_proj_keys_eq render_item_def
      render_spec_def part_kept_def)

text \<open>
  Claim C2, amended. \<^verbatim>\<open>to_string\<close> keeps exactly the entries whose key is in the
  vocabulary and whose value is a boolean, integer, float or text other than false;
  it sorts them by key, writes the value true and the empty text as the bare token
  \<^verbatim>\<open>+key\<close> and every other value as \<^verbatim>\<open>+key=value\<close>, and joins the tokens with one space;
  the result is the empty string when no entry is kept. Two listings of the same
  dictionary, in whatever order, give the same string.
\<close>

theorem to_string_canonical:
  fixes L :: "'f pylib"
  assumes "distinct (map fst items)"
  shows "to_string L items =
           str_join '' '' (map (render_bare_empty L) (sort_key fst (filter item_kept items)))
   \<and> set (sort_key fst (filter item_kept items)) =
       {x \<in> set items. fst x \<in> set all_proj_keys \<and> snd x \<noteq> PBool False \<and> is_scalar (snd x)}
   \<and> sorted (map fst (sort_key fst (filter item_kept items)))
   \<and> distinct (map fst (sort_key fst (filter item_kept items)))
   \<and> (filter item_kept items = [] \<longrightarrow> to_string L items = [])
   \<and> (\<forall>items'. distinct (map fst items') \<and> set items' = set items \<longrightarrow>
         to_string L items' = to_string L items)"
proof -
  have d: "distinct (map fst (filter item_kept items))"
    using assms by (rule distinct_fst_filter)
  have same: "to_string L items' = to_string L items"
    if "distinct (map fst items')" "set items' = set items" for items'
  proof -
    have "sort_key fst (filter item_kept items') = sort_key fst (filter item_kept items)"
      using that assms by (intro sort_key_fst_unique distinct_fst_filter) simp_all
    then show ?thesis by (simp add: to_string_def)
  qed
  have "set (sort_key fst (filter item_kept items)) =
       {x \<in> set items. fst x \<in> set all_proj_keys \<and> snd x \<noteq> PBool False \<and> is_scalar (snd x)}"
    by (auto simp: item_kept_def)
  moreover have "distinct (map fst (sort_key fst (filter item_kept items)))"
    using d by (simp add: distinct_map)
  moreover have "filter item_kept items = [] \<longrightarrow> to_string L items = []"
    by (simp add: to_string_def)
  ultimately show ?thesis
    using same to_string_bare_empty [of L items] by simp
qed

text \<open>The example of the specification in both orders, and a mapping of which nothing is kept.\<close>

theorem to_string_canonical_witness:
  "distinct (map fst [(''zone'', PInt 10 :: string pyval), (''proj'', PStr ''utm'')])
   \<and> to_string (table_lib [] []) [(''zone'', PInt 10), (''proj'', PStr ''utm'')] = ''+proj=utm +zone=10''
   \<and> to_string (table_lib [] []) [(''proj'', PStr ''utm''), (''zone'', PInt 10)] = ''+proj=utm +zone=10''
   \<and> to_string (table_lib [] []) [(''bogus'', PInt 1), (''k'', PBool False), (''a'', PNone)] = []"
proof -
  have d: "distinct (map fst [(''zone'', PInt 10 :: string pyval), (''proj'', PStr ''utm'')])"
    by simp
  have ten: "str_int 10 = ''10''"
    by (simp add: str_int_def str_nat.simps digit_char_def)
  have keys: "''zone'' \<in> set all_proj_keys" "''proj'' \<in> set all_proj_keys"
    "''bogus'' \<notin> set all_proj_keys"
    by (simp_all add: all_proj_keys_eq)
  have kept: "item_kept (''zone'', PInt 10 :: string pyval)"
    "item_kept (''proj'', PStr ''utm'' :: string pyval)"
    using keys by (simp_all add: item_kept_def)
  have 1: "to_string (table_lib [] []) [(''zone'', PInt 10), (''proj'', PStr ''utm'')] = ''+proj=utm +zone=10''"
    using to_string_canonical [OF d, of "table_lib [] []"]
    by (simp add: kept render_bare_empty_def ten)
  have d': "distinct (map fst [(''proj'', PStr ''utm'' :: string pyval), (''zone'', PInt 10)])"
    by simp
  have 2: "to_string (table_lib [] []) [(''proj'', PStr ''utm''), (''zone'', PInt 10)] = ''+proj=utm +zone=10''"
    using to_string_canonical [OF d', of "table_lib [] []"]
    by (simp add: kept render_bare_empty_def ten)
  have 3: "to_string (table_lib [] []) [(''bogus'', PInt 1), (''k'', PBool False), (''a'', PNone)] = []"
    using keys by (simp add: to_string_def item_kept_def)
  show ?thesis using d 1 2 3 by simp
qed

text \<open>
  Claim C3 says that a token is split at its first \<^verbatim>\<open>=\<close>, the rest being the value. The
  module splits at every \<^verbatim>\<open>=\<close> and reads a value only from exactly two parts: the token
  \<^verbatim>\<open>proj=a=b\<close> gives the key \<^verbatim>\<open>proj\<close> with the value true, not the text \<^verbatim>\<open>a=b\<close>.
\<close>

theorem token_split_counterexample:
  "from_string (table_lib [] []) ''+proj=a=b'' = Inr (PDict [(''proj'', PBool True)])
   \<and> item_first_eq (table_lib [] []) ''proj=a=b'' = (''proj'', PStr ''a=b'')
   \<and> proj_items (table_lib [] []) ''+proj=a=b'' \<noteq>
       map (\<lambda>t. item_first_eq (table_lib [] []) (lstrip ''+'' t)) (split_ws (strip ''+proj=a=b''))"
  by (simp add: run_defs item_first_eq_def all_proj_keys_eq table_lib_def)

text \<open>
  Claim C3, amended. On the PROJ.4 branch (no \<^verbatim>\<open>{\<close>, no \<^verbatim>\<open>EPSG:\<close> prefix) the trimmed
  input is split at whitespace into tokens, which are non-empty, free of whitespace
  and together hold every non-whitespace character of the input in order; leading
  \<^verbatim>\<open>+\<close> signs are stripped from each token. A token with exactly one \<^verbatim>\<open>=\<close> gives the text
  before it as key and the scalar-typed text after it as value; a token with no
  \<^verbatim>\<open>=\<close> is a key with the value true, and so is the text before the first \<^verbatim>\<open>=\<close> of a token
  with two or more. \<^verbatim>\<open>+no_defs\<close> decodes to the mapping of \<^verbatim>\<open>no_defs\<close> to true.
\<close>

theorem token_split:
  fixes L :: "'f pylib"
  assumes "CHR ''{'' \<notin> set prjs" and "\<not> startswith (upper (strip prjs)) ''EPSG:''"
  shows "from_string L prjs =
     (let out = crs_of (filter (\<lambda>kv. fst kv \<in> set all_proj_keys)
                  (map (\<lambda>t. item_one_eq L (lstrip ''+'' t)) (split_ws (strip prjs))))
      in if out = [] then Inl (CRSError (''crs is empty or invalid: '' @ prjs))
         else Inr (PDict out))
   \<and> (\<forall>t\<in>set (split_ws (strip prjs)). t \<noteq> [] \<and> (\<forall>c\<in>set t. \<not> is_space c))
   \<and> concat (split_ws (strip prjs)) = filter (\<lambda>c. \<not> is_space c) prjs
   \<and> (\<forall>p. CHR ''='' \<notin> set p \<longrightarrow> item_one_eq L p = (p, PBool True))
   \<and> (\<forall>k v. CHR ''='' \<notin> set k \<and> CHR ''='' \<notin> set v \<longrightarrow>
         item_one_eq L (k @ ''='' @ v) = (k, parse L v))
   \<and> (\<forall>k v w. CHR ''='' \<notin> set k \<longrightarrow>
         item_one_eq L (k @ ''='' @ v @ ''='' @ w) = (k, PBool True))
   \<and> from_string L ''+no_defs'' = Inr (PDict [(''no_defs'', PBool True)])"
proof -
  have main: "from_string L prjs =
     (let out = crs_of (filter (\<lambda>kv. fst kv \<in> set all_proj_keys)
                  (map (\<lambda>t. item_one_eq L (lstrip ''+'' t)) (split_ws (strip prjs))))
      in if out = [] then Inl (CRSError (''crs is empty or invalid: '' @ prjs))
         else Inr (PDict out))"
    using from_string_proj [OF assms, of L] by (simp add: proj_items_one_eq)
  have toks: "\<forall>t\<in>set (split_ws (strip prjs)). t \<noteq> [] \<and> (\<forall>c\<in>set t. \<not> is_space c)"
    by (rule split_ws_tokens)
  have cat: "concat (split_ws (strip prjs)) = filter (\<lambda>c. \<not> is_space c) prjs"
    by (simp add: concat_split_ws filter_strip)
  have bare: "item_one_eq L p = (p, PBool True)" if "CHR ''='' \<notin> set p" for p
    using that by (simp add: item_one_eq_def takeWhile_all count_list_0_iff)
  have one: "item_one_eq L (k @ ''='' @ v) = (k, parse L v)"
    if "CHR ''='' \<notin> set k \<and> CHR ''='' \<notin> set v" for k v
  proof -
    have "count_list (k @ ''='' @ v) CHR ''='' = 1"
      using that count_list_0_iff [of k "CHR ''=''"] count_list_0_iff [of v "CHR ''=''"]
      by simp
    moreover have "takeWhile (\<lambda>c. c \<noteq> CHR ''='') (k @ ''='' @ v) = k"
      using that by (auto simp: takeWhile_tail)
    moreover have "dropWhile (\<lambda>c. c \<noteq> CHR ''='') (k @ ''='' @ v) = ''='' @ v"
      using that by (auto simp: dropWhile_append3)
    ultimately show ?thesis
      by (simp add: item_one_eq_def)
  qed
  have more: "item_one_eq L (k @ ''='' @ v @ ''='' @ w) = (k, PBool True)"
    if "CHR ''='' \<notin> set k" for k v w
  proof -
    have "count_list (k @ ''='' @ v @ ''='' @ w) CHR ''='' \<noteq> 1"
      by simp
    moreover have "takeWhile (\<lambda>c. c \<noteq> CHR ''='') (k @ ''='' @ v @ ''='' @ w) = k"
      using that by (auto simp: takeWhile_tail)
    ultimately show ?thesis
      by (simp add: item_one_eq_def)
  qed
  have ex: "from_string L ''+no_defs'' = Inr (PDict [(''no_defs'', PBool True)])"
    by (simp add: run_defs all_proj_keys_eq)
  show ?thesis
    using main toks cat bare one more ex by blast
qed

text \<open>A string with a bare flag and a token with a value.\<close>

theorem token_split_witness:
  "CHR ''{'' \<notin> set ''+no_defs +zone=12''
   \<and> \<not> startswith (upper (strip ''+no_defs +zone=12'')) ''EPSG:''
   \<and> from_string (table_lib [] []) ''+no_defs +zone=12'' =
       Inr (PDict [(''no_defs'', PBool True), (''zone'', PInt 12)])"
proof -
  have a: "CHR ''{'' \<notin> set ''+no_defs +zone=12''"
    by simp
  have b: "\<not> startswith (upper (strip ''+no_defs +zone=12'')) ''EPSG:''"
    by (simp add: startswith_def upper_def upper_char_def strip_def is_space_def)
  have toks: "split_ws (strip ''+no_defs +zone=12'') = [''+no_defs'', ''+zone=12'']"
    by (simp add: split_ws_def strip_def is_space_def)
  have i1: "item_one_eq (table_lib [] []) ''no_defs'' = (''no_defs'', PBool True)"
    by (simp add: item_one_eq_def)
  have i2: "item_one_eq (table_lib [] []) ''zone=12'' = (''zone'', PInt 12)"
    by (simp add: item_one_eq_def run_defs)
  have keys: "''no_defs'' \<in> set all_proj_keys" "''zone'' \<in> set all_proj_keys"
    by (simp_all add: all_proj_keys_eq)
  have "from_string (table_lib [] []) ''+no_defs +zone=12'' =
       Inr (PDict [(''no_defs'', PBool True), (''zone'', PInt 12)])"
    using token_split [OF a b, of "table_lib [] []"]
    by (simp add: toks lstrip_def i1 i2 keys crs_of_def)
  then show ?thesis
    using a b by blast
qed

text \<open>
  Claim C4. The typing rule applied to a raw value: the literals \<^verbatim>\<open>True\<close> and \<^verbatim>\<open>true\<close>
  give the boolean true, \<^verbatim>\<open>False\<close> and \<^verbatim>\<open>false\<close> the boolean false; any other text that
  \<^verbatim>\<open>int\<close> accepts as a whole gives that integer, otherwise a text that \<^verbatim>\<open>float\<close> accepts
  gives that float, and otherwise the text is kept unchanged. The integer reading is
  exact: the decimal form of every integer is read back as that integer, and a text
  that is read as an integer holds nothing but whitespace, sign, underscore and digit
  characters, so \<^verbatim>\<open>12abc\<close>, \<^verbatim>\<open>45.5\<close> and \<^verbatim>\<open>1e3\<close> are no integers. Decoding
  \<^verbatim>\<open>+lat_0=45.5 +zone=12\<close> gives \<^verbatim>\<open>lat_0\<close> the float that \<^verbatim>\<open>float\<close> returns for \<^verbatim>\<open>45.5\<close> and
  \<^verbatim>\<open>zone\<close> the integer 12.
\<close>

theorem scalar_typing:
  fixes L :: "'f pylib"
  shows "parse L v =
     (if v = ''True'' \<or> v = ''true'' then PBool True
      else if v = ''False'' \<or> v = ''false'' then PBool False
      else (case py_int v of
              Some i \<Rightarrow> PInt i
            | None \<Rightarrow> (case float_parse L v of Some x \<Rightarrow> PFloat x | None \<Rightarrow> PStr v)))
   \<and> (\<forall>i. py_int (str_int i) = Some i)
   \<and> (\<forall>i. py_int v = Some i \<longrightarrow>
         (\<forall>c\<in>set v. is_int_space c \<or> c \<in> set ''+-_0123456789''))
   \<and> parse L ''12'' = PInt 12 \<and> parse L ''-7'' = PInt (- 7)
   \<and> py_int ''12abc'' = None \<and> py_int ''45.5'' = None \<and> py_int ''1e3'' = None
   \<and> py_int ''0x1F'' = None \<and> py_int ''12 34'' = None
   \<and> (float_parse L ''12abc'' = None \<longrightarrow> parse L ''12abc'' = PStr ''12abc'')
   \<and> (\<forall>x. float_parse L ''45.5'' = Some x \<longrightarrow>
         from_string L ''+lat_0=45.5 +zone=12'' =
           Inr (PDict [(''lat_0'', PFloat x), (''zone'', PInt 12)]))"
proof -
  have typed: "parse L v =
     (if v = ''True'' \<or> v = ''true'' then PBool True
      else if v = ''False'' \<or> v = ''false'' then PBool False
      else (case py_int v of
              Some i \<Rightarrow> PInt i
            | None \<Rightarrow> (case float_parse L v of Some x \<Rightarrow> PFloat x | None \<Rightarrow> PStr v)))"
    by (simp add: parse_def)
  have readback: "\<forall>i. py_int (str_int i) = Some i"
    by (simp add: py_int_str_int)
  have digit_set: "digit_of c \<noteq> None \<Longrightarrow> c \<in> set ''+-_0123456789''" for c
  proof -
    assume "digit_of c \<noteq> None"
    then have "48 \<le> (of_char c :: nat) \<and> (of_char c :: nat) \<le> 57"
      by (simp add: digit_of_def Let_def split: if_splits)
    then have "(of_char c :: nat) = 48 \<or> (of_char c :: nat) = 49 \<or> (of_char c :: nat) = 50
        \<or> (of_char c :: nat) = 51 \<or> (of_char c :: nat) = 52 \<or> (of_char c :: nat) = 53
        \<or> (of_char c :: nat) = 54 \<or> (of_char c :: nat) = 55 \<or> (of_char c :: nat) = 56
        \<or> (of_char c :: nat) = 57"
      by arith
    then have "(of_char c :: nat) = of_char CHR ''0'' \<or> (of_char c :: nat) = of_char CHR ''1''
        \<or> (of_char c :: nat) = of_char CHR ''2'' \<or> (of_char c :: nat) = of_char CHR ''3''
        \<or> (of_char c :: nat) = of_char CHR ''4'' \<or> (of_char c :: nat) = of_char CHR ''5''
        \<or> (of_char c :: nat) = of_char CHR ''6'' \<or> (of_char c :: nat) = of_char CHR ''7''
        \<or> (of_char c :: nat) = of_char CHR ''8'' \<or> (of_char c :: nat) = of_char CHR ''9''"
      by simp
    then show ?thesis
      unfolding of_char_eq_iff by simp
  qed
  have exact: "\<forall>i. py_int v = Some i \<longrightarrow> (\<forall>c\<in>set v. is_int_space c \<or> c \<in> set ''+-_0123456789'')"
  proof (intro allI impI ballI)
    fix i c
    assume "py_int v = Some i" "c \<in> set v"
    then consider "is_int_space c" | "c = CHR ''+''" | "c = CHR ''-''" | "c = CHR ''_''"
      | "digit_of c \<noteq> None"
      using py_int_chars [of v i c] by blast
    then show "is_int_space c \<or> c \<in> set ''+-_0123456789''"
    proof cases
      case 1
      then show ?thesis by simp
    next
      case 2
      then show ?thesis by simp
    next
      case 3
      then show ?thesis by simp
    next
      case 4
      then show ?thesis by simp
    next
      case 5
      then show ?thesis using digit_set [of c] by blast
    qed
  qed
  have ints: "parse L ''12'' = PInt 12" "parse L ''-7'' = PInt (- 7)"
    by (simp_all add: run_defs)
  have not_ints: "py_int ''12abc'' = None" "py_int ''45.5'' = None" "py_int ''1e3'' = None"
    "py_int ''0x1F'' = None" "py_int ''12 34'' = None"
    by (simp_all add: run_defs)
  have astext: "float_parse L ''12abc'' = None \<longrightarrow> parse L ''12abc'' = PStr ''12abc''"
    by (simp add: run_defs)
  have example: "\<forall>x. float_parse L ''45.5'' = Some x \<longrightarrow>
         from_string L ''+lat_0=45.5 +zone=12'' =
           Inr (PDict [(''lat_0'', PFloat x), (''zone'', PInt 12)])"
    by (simp add: run_defs all_proj_keys_eq)
  show ?thesis
    by (intro conjI) (rule typed readback exact ints not_ints astext example)+
qed

text \<open>The example with \<^verbatim>\<open>float\<close> accepting \<^verbatim>\<open>45.5\<close>, and one value of each type.\<close>

theorem scalar_typing_witness:
  "float_parse (table_lib [] [(''45.5'', ''45.5'')]) ''45.5'' = Some ''45.5''
   \<and> from_string (table_lib [] [(''45.5'', ''45.5'')]) ''+lat_0=45.5 +zone=12'' =
       Inr (PDict [(''lat_0'', PFloat ''45.5''), (''zone'', PInt 12)])
   \<and> py_int ''12'' = Some 12
   \<and> parse (table_lib [] [(''45.5'', ''45.5'')]) ''True'' = PBool True
   \<and> parse (table_lib [] [(''45.5'', ''45.5'')]) ''false'' = PBool False
   \<and> parse (table_lib [] [(''45.5'', ''45.5'')]) ''45.5'' = PFloat ''45.5''
   \<and> parse (table_lib [] [(''45.5'', ''45.5'')]) ''longlat'' = PStr ''longlat''"
proof -
  have f: "float_parse (table_lib [] [(''45.5'', ''45.5'')]) ''45.5'' = Some ''45.5''"
    "float_parse (table_lib [] [(''45.5'', ''45.5'')]) ''longlat'' = None"
    by (simp_all add: table_lib_def)
  have i: "py_int ''12'' = Some 12" "py_int ''45.5'' = None" "py_int ''longlat'' = None"
    "py_int ''True'' = None" "py_int ''false'' = None"
    by (simp_all add: run_defs)
  note w = scalar_typing [of "table_lib [] [(''45.5'', ''45.5'')]"]
  have "\<forall>x. float_parse (table_lib [] [(''45.5'', ''45.5'')]) ''45.5'' = Some x \<longrightarrow>
         from_string (table_lib [] [(''45.5'', ''45.5'')]) ''+lat_0=45.5 +zone=12'' =
           Inr (PDict [(''lat_0'', PFloat x), (''zone'', PInt 12)])"
    using w [of "[]"] by (elim conjE)
  then have 1: "from_string (table_lib [] [(''45.5'', ''45.5'')]) ''+lat_0=45.5 +zone=12'' =
       Inr (PDict [(''lat_0'', PFloat ''45.5''), (''zone'', PInt 12)])"
    using f(1) by (elim allE impE)
  have 2: "parse (table_lib [] [(''45.5'', ''45.5'')]) ''True'' = PBool True"
    "parse (table_lib [] [(''45.5'', ''45.5'')]) ''false'' = PBool False"
    "parse (table_lib [] [(''45.5'', ''45.5'')]) ''45.5'' = PFloat ''45.5''"
    "parse (table_lib [] [(''45.5'', ''45.5'')]) ''longlat'' = PStr ''longlat''"
    using f i by (simp_all add: parse_def)
  show ?thesis
    by (intro conjI) (rule f 1 2 i)+
qed

text \<open>
  Claim C5. On the PROJ.4 branch the items whose key is not in the vocabulary are
  dropped without an error; if none is left the call fails with the error for an empty
  or invalid string, whose message carries the input as given. Otherwise the result is
  the dictionary of the items left: its keys stand in the order in which they were
  first seen, and a key that occurs again keeps its place and takes the later value.
\<close>

theorem vocabulary_filter:
  fixes L :: "'f pylib"
  assumes "CHR ''{'' \<notin> set prjs" and "\<not> startswith (upper (strip prjs)) ''EPSG:''"
  shows "from_string L prjs =
     (let kept = filter (\<lambda>kv. fst kv \<in> set all_proj_keys) (proj_items L prjs)
      in if kept = [] then Inl (CRSError (''crs is empty or invalid: '' @ prjs))
         else Inr (PDict (crs_of kept)))
   \<and> (\<forall>kvs :: (string \<times> 'f pyval) list.
         map fst (crs_of kvs) = rev (remdups (rev (map fst kvs)))
         \<and> map_of (crs_of kvs) = map_of (rev kvs))
   \<and> from_string L ''+bogus=1'' = Inl (CRSError ''crs is empty or invalid: +bogus=1'')
   \<and> from_string L [] = Inl (CRSError ''crs is empty or invalid: '')
   \<and> (float_parse L ''longlat'' = None \<longrightarrow>
        from_string L ''+bogus=1 +proj=longlat'' = Inr (PDict [(''proj'', PStr ''longlat'')]))
   \<and> from_string L ''+no_defs +zone=10 +no_defs=7 +zone=11'' =
        Inr (PDict [(''no_defs'', PInt 7), (''zone'', PInt 11)])"
proof -
  have main: "from_string L prjs =
     (let kept = filter (\<lambda>kv. fst kv \<in> set all_proj_keys) (proj_items L prjs)
      in if kept = [] then Inl (CRSError (''crs is empty or invalid: '' @ prjs))
         else Inr (PDict (crs_of kept)))"
    using from_string_proj [OF assms, of L] by (simp add: Let_def crs_of_Nil_iff)
  have dict: "\<forall>kvs :: (string \<times> 'f pyval) list.
         map fst (crs_of kvs) = rev (remdups (rev (map fst kvs)))
         \<and> map_of (crs_of kvs) = map_of (rev kvs)"
    by (simp add: keys_crs_of map_of_crs_of)
  have e1: "from_string L ''+bogus=1'' = Inl (CRSError ''crs is empty or invalid: +bogus=1'')"
    by (simp add: run_defs all_proj_keys_eq)
  have e2: "from_string L [] = Inl (CRSError ''crs is empty or invalid: '')"
    by (simp add: run_defs)
  have e3: "float_parse L ''longlat'' = None \<longrightarrow>
        from_string L ''+bogus=1 +proj=longlat'' = Inr (PDict [(''proj'', PStr ''longlat'')])"
    by (simp add: run_defs all_proj_keys_eq)
  have e4: "from_string L ''+no_defs +zone=10 +no_defs=7 +zone=11'' =
        Inr (PDict [(''no_defs'', PInt 7), (''zone'', PInt 11)])"
    by (simp add: run_defs all_proj_keys_eq)
  show ?thesis
    using main dict e1 e2 e3 e4 by blast
qed

text \<open>
  The examples of the specification, with \<^verbatim>\<open>float\<close> rejecting the text \<^verbatim>\<open>longlat\<close> as
  Python does.
\<close>

theorem vocabulary_filter_witness:
  "CHR ''{'' \<notin> set ''+bogus=1 +proj=longlat''
   \<and> \<not> startswith (upper (strip ''+bogus=1 +proj=longlat'')) ''EPSG:''
   \<and> float_parse (table_lib [] []) ''longlat'' = None
   \<and> from_string (table_lib [] []) ''+bogus=1 +proj=longlat'' =
       Inr (PDict [(''proj'', PStr ''longlat'')])
   \<and> from_string (table_lib [] []) ''+bogus=1'' =
       Inl (CRSError ''crs is empty or invalid: +bogus=1'')"
proof -
  have a: "CHR ''{'' \<notin> set ''+bogus=1 +proj=longlat''"
    by simp
  have b: "\<not> startswith (upper (strip ''+bogus=1 +proj=longlat'')) ''EPSG:''"
    by (simp add: startswith_def upper_def upper_char_def strip_def is_space_def)
  have c: "float_parse (table_lib [] []) ''longlat'' = None"
    by (simp add: table_lib_def)
  show ?thesis
    using vocabulary_filter [OF a b, of "table_lib [] []"] a b c by blast
qed

text \<open>
  Claim C6. When the input contains the character \<^verbatim>\<open>{\<close>, the whole string goes to
  \<^verbatim>\<open>json.loads\<close> and nothing else is tried: a parse failure gives the error for invalid
  JSON, a falsy decoded value gives the error for empty JSON, and any other decoded
  value is returned as it is, with no filter on its keys.
\<close>

theorem json_branch:
  "CHR ''{'' \<in> set prjs \<Longrightarrow>
   from_string L prjs =
     (case json_loads L prjs of
        None \<Rightarrow> Inl (CRSError ''crs appears to be JSON but is not valid'')
      | Some val \<Rightarrow> if truthy L val then Inr val else Inl (CRSError ''crs is empty JSON''))"
  by (simp add: from_string_def split: option.splits)

text \<open>
  A run of the JSON branch, with the answers of \<^verbatim>\<open>json.loads\<close> for three inputs given as a
  table: a key that is not in the vocabulary survives.
\<close>

theorem json_branch_witness:
  \<open>CHR ''{'' \<in> set ''{"proj": "longlat", "bogus": 1}''
   \<and> ''bogus'' \<notin> set all_proj_keys
   \<and> from_string
        (table_lib [(''{"proj": "longlat", "bogus": 1}'',
                     PDict [(''proj'', PStr ''longlat''), (''bogus'', PInt 1)]),
                    (''{}'', PDict [])] [])
        ''{"proj": "longlat", "bogus": 1}''
      = Inr (PDict [(''proj'', PStr ''longlat''), (''bogus'', PInt 1)])
   \<and> from_string
        (table_lib [(''{"proj": "longlat", "bogus": 1}'',
                     PDict [(''proj'', PStr ''longlat''), (''bogus'', PInt 1)]),
                    (''{}'', PDict [])] [])
        ''{}''
      = Inl (CRSError ''crs is empty JSON'')
   \<and> from_string
        (table_lib [(''{"proj": "longlat", "bogus": 1}'',
                     PDict [(''proj'', PStr ''longlat''), (''bogus'', PInt 1)]),
                    (''{}'', PDict [])] [])
        ''{"proj": ''
      = Inl (CRSError ''crs appears to be JSON but is not valid'')\<close>
  using json_branch [of \<open>''{"proj": "longlat", "bogus": 1}''\<close>
      \<open>table_lib [(''{"proj": "longlat", "bogus": 1}'',
                     PDict [(''proj'', PStr ''longlat''), (''bogus'', PInt 1)]),
                    (''{}'', PDict [])] []\<close>]
    json_branch [of \<open>''{}''\<close>
      \<open>table_lib [(''{"proj": "longlat", "bogus": 1}'',
                     PDict [(''proj'', PStr ''longlat''), (''bogus'', PInt 1)]),
                    (''{}'', PDict [])] []\<close>]
    json_branch [of \<open>''{"proj": ''\<close>
      \<open>table_lib [(''{"proj": "longlat", "bogus": 1}'',
                     PDict [(''proj'', PStr ''longlat''), (''bogus'', PInt 1)]),
                    (''{}'', PDict [])] []\<close>]
  by (simp add: table_lib_def all_proj_keys_eq)

text \<open>
  Claim C7. \<^verbatim>\<open>from_epsg\<close> reads its argument as an integer. An integer argument that is
  zero or negative, and a text that \<^verbatim>\<open>int\<close> reads as such an integer, fail with the
  \<^verbatim>\<open>ValueError\<close> of the module; a text that is no integer literal fails with the
  \<^verbatim>\<open>ValueError\<close> of \<^verbatim>\<open>int\<close>. Every positive integer is accepted, and the result is exactly
  the mapping with the two entries \<^verbatim>\<open>init\<close>, the text \<^verbatim>\<open>epsg:\<close> followed by the argument as
  it was given, and \<^verbatim>\<open>no_defs\<close>, true.
\<close>

theorem from_epsg_cases:
  "(from_epsg (CodeInt n) :: error + 'f pyval) =
     (if n \<le> 0 then Inl (ValueError ''EPSG codes are positive integers'')
      else Inr (PDict [(''init'', PStr (''epsg:'' @ str_int n)), (''no_defs'', PBool True)]))
   \<and> (from_epsg (CodeStr s) :: error + 'f pyval) =
     (case py_int s of
        None \<Rightarrow> Inl (IntLiteralError s)
      | Some m \<Rightarrow>
          if m \<le> 0 then Inl (ValueError ''EPSG codes are positive integers'')
          else Inr (PDict [(''init'', PStr (''epsg:'' @ s)), (''no_defs'', PBool True)]))
   \<and> (from_epsg (CodeInt 4326) :: error + 'f pyval) =
       Inr (PDict [(''init'', PStr ''epsg:4326''), (''no_defs'', PBool True)])
   \<and> (from_epsg (CodeStr ''4326'') :: error + 'f pyval) =
       Inr (PDict [(''init'', PStr ''epsg:4326''), (''no_defs'', PBool True)])
   \<and> (from_epsg (CodeInt (- 5)) :: error + 'f pyval) =
       Inl (ValueError ''EPSG codes are positive integers'')
   \<and> (from_epsg (CodeInt 0) :: error + 'f pyval) =
       Inl (ValueError ''EPSG codes are positive integers'')
   \<and> (from_epsg (CodeStr ''-5'') :: error + 'f pyval) =
       Inl (ValueError ''EPSG codes are positive integers'')
   \<and> (from_epsg (CodeStr ''43x6'') :: error + 'f pyval) = Inl (IntLiteralError ''43x6'')
   \<and> (from_epsg (CodeStr []) :: error + 'f pyval) = Inl (IntLiteralError [])"
  by (simp add: from_epsg_def str_int_4326 py_int_examples split: option.splits)

text \<open>
  Claim C8 says that the input is split once at \<^verbatim>\<open>:\<close> and the remainder goes to
  \<^verbatim>\<open>from_epsg\<close>. The module splits at every \<^verbatim>\<open>:\<close> and takes the second part: on
  \<^verbatim>\<open>EPSG:4326:1\<close> it succeeds, where the remainder \<^verbatim>\<open>4326:1\<close> is no integer.
\<close>

theorem epsg_shorthand_counterexample:
  "from_string (table_lib [] []) ''EPSG:4326:1'' =
     Inr (PDict [(''init'', PStr ''epsg:4326''), (''no_defs'', PBool True)])
   \<and> epsg_remainder ''EPSG:4326:1'' = ''4326:1''
   \<and> (from_epsg (CodeStr (epsg_remainder ''EPSG:4326:1'')) :: error + string pyval) =
     Inl (IntLiteralError ''4326:1'')
   \<and> from_string (table_lib [] []) ''EPSG:4326:1'' \<noteq>
     from_epsg (CodeStr (epsg_remainder ''EPSG:4326:1''))"
  by (simp add: run_defs epsg_remainder_def)

text \<open>
  Claim C8, amended. When the input has no \<^verbatim>\<open>{\<close> and its trimmed, upper-cased form starts
  with \<^verbatim>\<open>EPSG:\<close>, \<^verbatim>\<open>from_string\<close> returns what \<^verbatim>\<open>from_epsg\<close> returns, error or mapping, on
  the text between the first \<^verbatim>\<open>:\<close> of the input and the next one (or the end of the
  input). \<^verbatim>\<open>from_string\<close> on \<^verbatim>\<open>EPSG:4326\<close> and \<^verbatim>\<open>from_epsg\<close> on 4326 give the same mapping,
  \<^verbatim>\<open>init\<close> \<^verbatim>\<open>epsg:4326\<close> and \<^verbatim>\<open>no_defs\<close> true.
\<close>

theorem epsg_shorthand:
  fixes L :: "'f pylib"
  assumes "CHR ''{'' \<notin> set prjs" and "startswith (upper (strip prjs)) ''EPSG:''"
  shows "from_string L prjs = from_epsg (CodeStr (epsg_segment prjs))
   \<and> from_string L ''EPSG:4326'' = from_epsg (CodeInt 4326)
   \<and> from_string L ''EPSG:4326'' =
       Inr (PDict [(''init'', PStr ''epsg:4326''), (''no_defs'', PBool True)])
   \<and> from_string L ''epsg:4326'' =
       Inr (PDict [(''init'', PStr ''epsg:4326''), (''no_defs'', PBool True)])"
proof -
  obtain a rest where "split_on CHR '':'' prjs = a # epsg_segment prjs # rest"
    using epsg_split [OF epsg_has_colon [OF assms(2)]] by blast
  then have "from_string L prjs = from_epsg (CodeStr (epsg_segment prjs))"
    using assms by (simp add: from_string_def)
  moreover have "from_string L ''EPSG:4326'' =
       Inr (PDict [(''init'', PStr ''epsg:4326''), (''no_defs'', PBool True)])"
    by (simp add: run_defs)
  moreover have "from_string L ''epsg:4326'' =
       Inr (PDict [(''init'', PStr ''epsg:4326''), (''no_defs'', PBool True)])"
    by (simp add: run_defs)
  moreover have "(from_epsg (CodeInt 4326) :: error + 'f pyval) =
       Inr (PDict [(''init'', PStr ''epsg:4326''), (''no_defs'', PBool True)])"
    by (simp add: from_epsg_def str_int_4326)
  ultimately show ?thesis by simp
qed

text \<open>Three inputs of the EPSG branch, two of them failing in \<^verbatim>\<open>from_epsg\<close>.\<close>

theorem epsg_shorthand_witness:
  "CHR ''{'' \<notin> set ''EPSG:4326:1''
   \<and> startswith (upper (strip ''EPSG:4326:1'')) ''EPSG:''
   \<and> epsg_segment ''EPSG:4326:1'' = ''4326''
   \<and> from_string (table_lib [] []) ''EPSG:4326:1'' = from_epsg (CodeStr ''4326'')
   \<and> from_string (table_lib [] []) ''EPSG:'' = Inl (IntLiteralError [])
   \<and> from_string (table_lib [] []) ''epsg:-7'' =
       Inl (ValueError ''EPSG codes are positive integers'')"
proof -
  have a: "CHR ''{'' \<notin> set ''EPSG:4326:1''" "CHR ''{'' \<notin> set ''EPSG:''"
    "CHR ''{'' \<notin> set ''epsg:-7''"
    by simp_all
  have b: "startswith (upper (strip ''EPSG:4326:1'')) ''EPSG:''"
    "startswith (upper (strip ''EPSG:'')) ''EPSG:''"
    "startswith (upper (strip ''epsg:-7'')) ''EPSG:''"
    by (simp_all add: startswith_def upper_def upper_char_def strip_def is_space_def)
  have c: "epsg_segment ''EPSG:4326:1'' = ''4326''" "epsg_segment ''EPSG:'' = []"
    "epsg_segment ''epsg:-7'' = ''-7''"
    by (simp_all add: epsg_segment_def)
  have d: "(from_epsg (CodeStr []) :: error + string pyval) = Inl (IntLiteralError [])"
    "(from_epsg (CodeStr ''-7'') :: error + string pyval) =
       Inl (ValueError ''EPSG codes are positive integers'')"
    by (simp_all add: run_defs)
  show ?thesis
    using epsg_shorthand [OF a(1) b(1), of "table_lib [] []"]
      epsg_shorthand [OF a(2) b(2), of "table_lib [] []"]
      epsg_shorthand [OF a(3) b(3), of "table_lib [] []"] a b c d
    by simp
qed

text \<open>
  Claim C9. The vocabulary built by the module from its table is the set the
  specification describes: for every non-blank line of the table the first
  whitespace-delimited token, without its leading \<^verbatim>\<open>+\<close> and trimmed, and the extra key
  \<^verbatim>\<open>no_mayo\<close>. The list has no repeated entry (86 names), and membership is exact and
  case-sensitive: \<^verbatim>\<open>proj\<close> is a member, \<^verbatim>\<open>PROJ\<close> and \<^verbatim>\<open>Proj\<close> are not; both \<^verbatim>\<open>k\<close> and \<^verbatim>\<open>K\<close>
  are members; \<^verbatim>\<open>R\<close> is a member and \<^verbatim>\<open>r\<close> is not.
\<close>

theorem vocabulary_from_table:
  "set all_proj_keys = vocabulary_spec \<and> distinct all_proj_keys \<and> length all_proj_keys = 86
   \<and> ''no_mayo'' \<in> set all_proj_keys
   \<and> ''proj'' \<in> set all_proj_keys \<and> ''PROJ'' \<notin> set all_proj_keys \<and> ''Proj'' \<notin> set all_proj_keys
   \<and> ''k'' \<in> set all_proj_keys \<and> ''K'' \<in> set all_proj_keys
   \<and> ''R'' \<in> set all_proj_keys \<and> ''r'' \<notin> set all_proj_keys"
proof -
  have "{l \<in> set (split_on (CHR 0x0A) param_data). \<not> list_all is_space l} = set param_rows"
    using param_rows_not_blank by (auto simp: split_param_data)
  then have "vocabulary_spec = insert ''no_mayo'' ((\<lambda>l. strip (lstrip ''+'' (first_token l))) ` set param_rows)"
    by (simp add: vocabulary_spec_def)
  also have "(\<lambda>l. strip (lstrip ''+'' (first_token l))) ` set param_rows = key_of_line ` set param_rows"
    using param_rows_not_blank by (intro image_cong) (simp_all add: key_of_line_first_token)
  also have "insert ''no_mayo'' (key_of_line ` set param_rows) = set all_proj_keys"
    by (simp add: all_proj_keys_def param_lines_eq)
  finally have "set all_proj_keys = vocabulary_spec" by simp
  moreover have "distinct all_proj_keys"
    by (simp add: all_proj_keys_eq)
  moreover have "length all_proj_keys = 86"
    by (simp add: all_proj_keys_eq)
  moreover have "''no_mayo'' \<in> set all_proj_keys
   \<and> ''proj'' \<in> set all_proj_keys \<and> ''PROJ'' \<notin> set all_proj_keys \<and> ''Proj'' \<notin> set all_proj_keys
   \<and> ''k'' \<in> set all_proj_keys \<and> ''K'' \<in> set all_proj_keys
   \<and> ''R'' \<in> set all_proj_keys \<and> ''r'' \<notin> set all_proj_keys"
    by (simp add: all_proj_keys_eq)
  ultimately show ?thesis by simp
qed

text \<open>
  Claim C10. For a key of the vocabulary, an entry whose value is the empty text is
  kept and written as the bare token \<^verbatim>\<open>+key\<close>, exactly as the value true is; an entry
  whose value is the integer 0 is kept and written as \<^verbatim>\<open>+key=0\<close>.
\<close>

theorem falsy_values_rendered:
  fixes L :: "'f pylib"
  shows "k \<in> set all_proj_keys \<Longrightarrow>
     item_kept (k, PStr [] :: 'f pyval) \<and> render_item L (k, PStr []) = ''+'' @ k
   \<and> render_item L (k, PStr []) = render_item L (k, PBool True)
   \<and> to_string L [(k, PStr [])] = ''+'' @ k
   \<and> item_kept (k, PInt 0 :: 'f pyval) \<and> render_item L (k, PInt 0) = ''+'' @ k @ ''=0''
   \<and> to_string L [(k, PInt 0)] = ''+'' @ k @ ''=0''"
proof -
  assume k: "k \<in> set all_proj_keys"
  then have ne: "k \<noteq> []"
    using empty_not_key by auto
  have kept1: "item_kept (k, PStr [] :: 'f pyval)" and kept2: "item_kept (k, PInt 0 :: 'f pyval)"
    using k by (simp_all add: item_kept_def)
  have r1: "render_item L (k, PStr []) = ''+'' @ k"
    using ne by (simp add: render_item_def part_kept_def)
  have r2: "render_item L (k, PBool True) = ''+'' @ k"
    using ne by (simp add: render_item_def part_kept_def)
  have r3: "render_item L (k, PInt 0) = ''+'' @ k @ ''=0''"
    using ne by (simp add: render_item_def part_kept_def str_int_0)
  have t1: "to_string L [(k, PStr [])] = ''+'' @ k"
    by (simp add: to_string_def kept1 r1)
  have t2: "to_string L [(k, PInt 0)] = ''+'' @ k @ ''=0''"
    by (simp add: to_string_def kept2 r3)
  show ?thesis
    using kept1 kept2 r1 r2 r3 t1 t2 by simp
qed

text \<open>The same at the key \<^verbatim>\<open>zone\<close>.\<close>

theorem falsy_values_rendered_witness:
  "''zone'' \<in> set all_proj_keys
   \<and> to_string (table_lib [] []) [(''zone'', PStr [])] = ''+zone''
   \<and> to_string (table_lib [] []) [(''zone'', PInt 0)] = ''+zone=0''
   \<and> to_string (table_lib [] []) [(''zone'', PBool True)] = ''+zone''"
proof -
  have z: "''zone'' \<in> set all_proj_keys"
    by (simp add: all_proj_keys_eq)
  have "to_string (table_lib [] []) [(''zone'', PBool True)] = ''+zone''"
    using z by (simp add: to_string_def item_kept_def render_item_def part_kept_def)
  then show ?thesis
    using z falsy_values_rendered [OF z, of "table_lib [] []"] by simp
qed

end
